theory Spec2Isabelle
  imports Complex_Main
begin

section \<open>Values, exceptions and library functions\<close>

text \<open>
  The scripts read one CSV file into a pandas data frame and push its rows to a destination.
  The model starts from the frame that \<^verbatim>\<open>pd.read_csv\<close> returned. A cell of the frame is
  an integer, a float (the type \<open>'f\<close>; a missing cell is the float NaN), a boolean, a
  string (a cell of an \<^verbatim>\<open>object\<close> column) or, once \<^verbatim>\<open>pd.to_datetime\<close> has run, a timestamp
  (the type \<open>'t\<close>).
\<close>

datatype exn =
    KeyError string
  | ValueError
  | TypeError
  | OverflowError
  | ParserError
  | ApiException
  | ConnectionError

datatype ('f, 't) cell =
    CInt int
  | CFloat 'f
  | CBool bool
  | CStr string
  | CTime 't

text \<open>
  The conversions of Python and pandas whose results depend on floating point or on the
  text of a cell are parameters of the model: \<^verbatim>\<open>float(n)\<close> of an integer, \<^verbatim>\<open>float(s)\<close>
  and \<^verbatim>\<open>int(s)\<close> of a string, \<^verbatim>\<open>int(x)\<close> of a float (NaN and the infinities raise) and
  \<^verbatim>\<open>pd.to_datetime\<close> of a cell. Each returns its value or the exception it raises.
\<close>

record ('f, 't) pylib =
  float_of_int :: "int \<Rightarrow> exn + 'f"
  float_of_str :: "string \<Rightarrow> exn + 'f"
  int_of_float :: "'f \<Rightarrow> exn + int"
  int_of_str :: "string \<Rightarrow> exn + int"
  to_datetime :: "('f, 't) cell \<Rightarrow> exn + 't"

definition bindE :: "exn + 'a \<Rightarrow> ('a \<Rightarrow> exn + 'b) \<Rightarrow> exn + 'b" where
  "bindE m f = (case m of Inl e \<Rightarrow> Inl e | Inr x \<Rightarrow> f x)"

text \<open>\<^verbatim>\<open>float(x)\<close>: a float is returned as it is, a boolean counts as 0 or 1.\<close>

fun py_float :: "('f, 't) pylib \<Rightarrow> ('f, 't) cell \<Rightarrow> exn + 'f" where
  "py_float L (CFloat x) = Inr x"
| "py_float L (CInt n) = float_of_int L n"
| "py_float L (CBool b) = float_of_int L (if b then 1 else 0)"
| "py_float L (CStr s) = float_of_str L s"
| "py_float L (CTime t) = Inl TypeError"

text \<open>\<^verbatim>\<open>int(x)\<close>: an integer is returned as it is, whatever its sign.\<close>

fun py_int :: "('f, 't) pylib \<Rightarrow> ('f, 't) cell \<Rightarrow> exn + int" where
  "py_int L (CInt n) = Inr n"
| "py_int L (CBool b) = Inr (if b then 1 else 0)"
| "py_int L (CFloat x) = int_of_float L x"
| "py_int L (CStr s) = int_of_str L s"
| "py_int L (CTime t) = Inl TypeError"

text \<open>Running a conversion over a list stops at the first exception.\<close>

fun mapE :: "('a \<Rightarrow> exn + 'b) \<Rightarrow> 'a list \<Rightarrow> exn + 'b list" where
  "mapE f [] = Inr []"
| "mapE f (x # xs) =
     (case f x of
        Inl e \<Rightarrow> Inl e
      | Inr y \<Rightarrow> (case mapE f xs of Inl e \<Rightarrow> Inl e | Inr ys \<Rightarrow> Inr (y # ys)))"

section \<open>Data frames\<close>

text \<open>
  A frame has a header (the column names, which pandas keeps distinct) and a body, one
  list of cells per row, in the order of the header. \<^verbatim>\<open>row['Open']\<close> raises KeyError when
  the frame has no such column.
\<close>

record ('f, 't) frame =
  header :: "string list"
  body :: "('f, 't) cell list list"

definition getitem :: "string list \<Rightarrow> ('f, 't) cell list \<Rightarrow> string \<Rightarrow> exn + ('f, 't) cell" where
  "getitem hdr row name =
     (case map_of (zip hdr row) name of None \<Rightarrow> Inl (KeyError name) | Some c \<Rightarrow> Inr c)"

definition setitem :: "string list \<Rightarrow> ('f, 't) cell list \<Rightarrow> string \<Rightarrow> ('f, 't) cell \<Rightarrow> ('f, 't) cell list" where
  "setitem hdr row name v = map (\<lambda>(h, c). if h = name then v else c) (zip hdr row)"

text \<open>
  \<^verbatim>\<open>df[name] = convert(df[name])\<close>: reading the column raises KeyError when the header
  lacks it, also in a frame with no rows; the conversion raises when one cell fails; the
  frame is changed only when every cell converted.
\<close>

definition convert_column ::
  "string \<Rightarrow> (('f, 't) cell \<Rightarrow> exn + ('f, 't) cell) \<Rightarrow> ('f, 't) frame \<Rightarrow> exn + ('f, 't) frame" where
  "convert_column name f df =
     (if name \<notin> set (header df) then Inl (KeyError name)
      else bindE
        (mapE (\<lambda>row. bindE (getitem (header df) row name)
                 (\<lambda>c. bindE (f c) (\<lambda>v. Inr (setitem (header df) row name v))))
           (body df))
        (\<lambda>rows. Inr (df\<lparr>body := rows\<rparr>)))"

definition date_cell :: "('f, 't) pylib \<Rightarrow> ('f, 't) cell \<Rightarrow> exn + ('f, 't) cell" where
  "date_cell L c = bindE (to_datetime L c) (\<lambda>t. Inr (CTime t))"

definition astype_float :: "('f, 't) pylib \<Rightarrow> ('f, 't) cell \<Rightarrow> exn + ('f, 't) cell" where
  "astype_float L c = bindE (py_float L c) (\<lambda>x. Inr (CFloat x))"

definition astype_int :: "('f, 't) pylib \<Rightarrow> ('f, 't) cell \<Rightarrow> exn + ('f, 't) cell" where
  "astype_int L c = bindE (py_int L c) (\<lambda>n. Inr (CInt n))"

section \<open>Points, write calls and the destination\<close>

datatype 'f fieldval = FloatField 'f | IntField int

record ('f, 't) point =
  point_name :: string
  point_tags :: "(string \<times> string) list"
  point_time :: "('f, 't) cell option"
  point_fields :: "(string \<times> 'f fieldval) list"

fun dict_set :: "'k \<Rightarrow> 'v \<Rightarrow> ('k \<times> 'v) list \<Rightarrow> ('k \<times> 'v) list" where
  "dict_set k v [] = [(k, v)]"
| "dict_set k v ((k', v') # kvs) =
     (if k' = k then (k, v) # kvs else (k', v') # dict_set k v kvs)"

definition Point :: "string \<Rightarrow> ('f, 't) point" where
  "Point name = \<lparr>point_name = name, point_tags = [], point_time = None, point_fields = []\<rparr>"

definition time_of :: "('f, 't) cell \<Rightarrow> ('f, 't) point \<Rightarrow> ('f, 't) point" where
  "time_of t p = p\<lparr>point_time := Some t\<rparr>"

definition field :: "string \<Rightarrow> 'f fieldval \<Rightarrow> ('f, 't) point \<Rightarrow> ('f, 't) point" where
  "field k v p = p\<lparr>point_fields := dict_set k v (point_fields p)\<rparr>"

text \<open>
  The point of one row, as both import scripts build it: the measurement, then the time,
  then the five fields, each argument evaluated in this order, so that the first column
  that is missing or does not convert raises.
\<close>

definition make_point ::
  "('f, 't) pylib \<Rightarrow> string list \<Rightarrow> ('f, 't) cell list \<Rightarrow> exn + ('f, 't) point" where
  "make_point L hdr row =
     bindE (getitem hdr row ''Date'') (\<lambda>d.
     bindE (bindE (getitem hdr row ''Open'') (py_float L)) (\<lambda>op.
     bindE (bindE (getitem hdr row ''High'') (py_float L)) (\<lambda>hi.
     bindE (bindE (getitem hdr row ''Low'') (py_float L)) (\<lambda>lo.
     bindE (bindE (getitem hdr row ''Close'') (py_float L)) (\<lambda>cl.
     bindE (bindE (getitem hdr row ''Volume'') (py_int L)) (\<lambda>vol.
       Inr (field ''volume'' (IntField vol)
           (field ''close'' (FloatField cl)
           (field ''low'' (FloatField lo)
           (field ''high'' (FloatField hi)
           (field ''open'' (FloatField op)
           (time_of d (Point ''ionq_stock'')))))))))))))"

datatype ('f, 't) payload = Single "('f, 't) point" | Batch "('f, 't) point list"

fun points_of :: "('f, 't) payload \<Rightarrow> ('f, 't) point list" where
  "points_of (Single p) = [p]"
| "points_of (Batch ps) = ps"

record ('f, 't) wcall =
  bucket :: string
  org :: "string option"
  payload :: "('f, 't) payload"

record flux_query =
  q_bucket :: string
  q_range_start :: string
  q_measurement :: string
  q_field :: string

record ('f, 't) flux_record =
  rec_value :: "'f fieldval"
  rec_time :: 't

text \<open>
  The destination is outside the scripts. Its behaviour is a parameter: \<open>respond k c\<close> is
  what it answers to the write call \<open>c\<close> when \<open>k\<close> write calls were made before
  (\<open>None\<close>: acknowledged; \<open>Some e\<close>: the synchronous call raises \<open>e\<close>), and \<open>answer q\<close> is
  the tables a query returns, or the exception it raises.
\<close>

record ('f, 't) dest =
  respond :: "nat \<Rightarrow> ('f, 't) wcall \<Rightarrow> exn option"
  answer :: "flux_query \<Rightarrow> exn + ('f, 't) flux_record list list"

datatype ('f, 't) msg =
    Msg_Reading string
  | Msg_Found nat
  | Msg_Loading nat
  | Msg_Imported nat
  | Msg_Success nat
  | Msg_Last_Close "'f fieldval" 't
  | Msg_Success_Stock nat
  | Msg_Latest_Close "'f fieldval" 't

text \<open>
  What a run has done so far: the write calls the destination acknowledged, the number of
  write calls made, the queries sent and the lines printed, each in order.
\<close>

record ('f, 't) world =
  written :: "('f, 't) wcall list"
  attempts :: nat
  queries :: "flux_query list"
  printed :: "('f, 't) msg list"

definition fresh :: "('f, 't) world" where
  "fresh = \<lparr>written = [], attempts = 0, queries = [], printed = []\<rparr>"

definition print_msg :: "('f, 't) msg \<Rightarrow> ('f, 't) world \<Rightarrow> ('f, 't) world" where
  "print_msg m w = w\<lparr>printed := printed w @ [m]\<rparr>"

definition write_api_write ::
  "('f, 't) dest \<Rightarrow> ('f, 't) wcall \<Rightarrow> ('f, 't) world \<Rightarrow> exn option \<times> ('f, 't) world" where
  "write_api_write D c w =
     (case respond D (attempts w) c of
        Some e \<Rightarrow> (Some e, w\<lparr>attempts := attempts w + 1\<rparr>)
      | None \<Rightarrow> (None, w\<lparr>written := written w @ [c], attempts := attempts w + 1\<rparr>))"

definition query_api_query ::
  "('f, 't) dest \<Rightarrow> flux_query \<Rightarrow> ('f, 't) world \<Rightarrow>
     (exn + ('f, 't) flux_record list list) \<times> ('f, 't) world" where
  "query_api_query D q w = (answer D q, w\<lparr>queries := queries w @ [q]\<rparr>)"

text \<open>
  The two nested loops over the result of the query print one line for each record of
  each table; \<open>line\<close> is the text of the line.
\<close>

definition print_records ::
  "('f fieldval \<Rightarrow> 't \<Rightarrow> ('f, 't) msg) \<Rightarrow> ('f, 't) flux_record list list \<Rightarrow>
     ('f, 't) world \<Rightarrow> ('f, 't) world" where
  "print_records line tables w =
     foldl (\<lambda>w r. print_msg (line (rec_value r) (rec_time r)) w) w (concat tables)"

section \<open>import_ionq_to_influx.py\<close>

definition INFLUX_BUCKET :: string where
  "INFLUX_BUCKET = ''stock_data''"

definition CSV_FILE :: string where
  "CSV_FILE = ''C:'' @ [CHR 0x5C] @ ''ANFA'' @ [CHR 0x5C] @ ''IONQ_historical.csv''"

definition verify_query :: "string \<Rightarrow> flux_query" where
  "verify_query b =
     \<lparr>q_bucket = b, q_range_start = ''-5y'', q_measurement = ''ionq_stock'', q_field = ''close''\<rparr>"

definition write_batch :: "('f, 't) point list \<Rightarrow> ('f, 't) wcall" where
  "write_batch points = \<lparr>bucket = INFLUX_BUCKET, org = None, payload = Batch points\<rparr>"

text \<open>
  The loop of lines 40 to 55: \<open>index\<close> is the row's position, \<open>points\<close> the pending batch.
  The result is the pending batch when the loop ends, or the exception that ended it.
\<close>

fun import_loop ::
  "('f, 't) pylib \<Rightarrow> ('f, 't) dest \<Rightarrow> string list \<Rightarrow> ('f, 't) cell list list \<Rightarrow> nat \<Rightarrow>
     ('f, 't) point list \<Rightarrow> ('f, 't) world \<Rightarrow> (exn + ('f, 't) point list) \<times> ('f, 't) world" where
  "import_loop L D hdr [] index points w = (Inr points, w)"
| "import_loop L D hdr (row # rest) index points w =
     (case make_point L hdr row of
        Inl e \<Rightarrow> (Inl e, w)
      | Inr point \<Rightarrow>
          (let points' = points @ [point] in
           if length points' \<ge> 1000 then
             (case write_api_write D (write_batch points') w of
                (Some e, w') \<Rightarrow> (Inl e, w')
              | (None, w') \<Rightarrow>
                  import_loop L D hdr rest (index + 1) []
                    (print_msg (Msg_Imported (index + 1)) w'))
           else import_loop L D hdr rest (index + 1) points' w))"

definition import_csv_to_influxdb ::
  "('f, 't) pylib \<Rightarrow> ('f, 't) dest \<Rightarrow> ('f, 't) frame \<Rightarrow> exn option \<times> ('f, 't) world" where
  "import_csv_to_influxdb L D df0 =
     (let w1 = print_msg (Msg_Reading CSV_FILE) fresh in
      case convert_column ''Date'' (date_cell L) df0 of
        Inl e \<Rightarrow> (Some e, w1)
      | Inr df \<Rightarrow>
          (let w2 = print_msg (Msg_Found (length (body df))) w1 in
           case import_loop L D (header df) (body df) 0 [] w2 of
             (Inl e, w3) \<Rightarrow> (Some e, w3)
           | (Inr points, w3) \<Rightarrow>
               (case (if points \<noteq> [] then write_api_write D (write_batch points) w3
                      else (None, w3)) of
                  (Some e, w4) \<Rightarrow> (Some e, w4)
                | (None, w4) \<Rightarrow>
                    (let w5 = print_msg (Msg_Success (length (body df))) w4 in
                     case query_api_query D (verify_query INFLUX_BUCKET) w5 of
                       (Inl e, w6) \<Rightarrow> (Some e, w6)
                     | (Inr tables, w6) \<Rightarrow> (None, print_records Msg_Last_Close tables w6)))))"

section \<open>import_ionq.py\<close>

definition write_point :: "('f, 't) point \<Rightarrow> ('f, 't) wcall" where
  "write_point point =
     \<lparr>bucket = ''stocks'', org = Some ''Pope Brothers LTD'', payload = Single point\<rparr>"

text \<open>
  The loop of lines 25 to 38 writes each point with a call of its own; \<open>count\<close> is the
  number of points written so far.
\<close>

fun ionq_loop ::
  "('f, 't) pylib \<Rightarrow> ('f, 't) dest \<Rightarrow> string list \<Rightarrow> ('f, 't) cell list list \<Rightarrow> nat \<Rightarrow>
     ('f, 't) world \<Rightarrow> (exn + nat) \<times> ('f, 't) world" where
  "ionq_loop L D hdr [] count w = (Inr count, w)"
| "ionq_loop L D hdr (row # rest) count w =
     (case make_point L hdr row of
        Inl e \<Rightarrow> (Inl e, w)
      | Inr point \<Rightarrow>
          (case write_api_write D (write_point point) w of
             (Some e, w') \<Rightarrow> (Inl e, w')
           | (None, w') \<Rightarrow>
               (let count' = count + 1 in
                ionq_loop L D hdr rest count'
                  (if count' mod 100 = 0 then print_msg (Msg_Imported count') w' else w'))))"

definition import_ionq ::
  "('f, 't) pylib \<Rightarrow> ('f, 't) dest \<Rightarrow> ('f, 't) frame \<Rightarrow> exn option \<times> ('f, 't) world" where
  "import_ionq L D df0 =
     (case convert_column ''Date'' (date_cell L) df0 of
        Inl e \<Rightarrow> (Some e, fresh)
      | Inr df \<Rightarrow>
          (let w1 = print_msg (Msg_Loading (length (body df))) fresh in
           case ionq_loop L D (header df) (body df) 0 w1 of
             (Inl e, w2) \<Rightarrow> (Some e, w2)
           | (Inr count, w2) \<Rightarrow>
               (let w3 = print_msg (Msg_Success_Stock (length (body df))) w2 in
                case query_api_query D (verify_query ''stocks'') w3 of
                  (Inl e, w4) \<Rightarrow> (Some e, w4)
                | (Inr tables, w4) \<Rightarrow> (None, print_records Msg_Latest_Close tables w4))))"

section \<open>analyze_ionq_local.py\<close>

text \<open>
  The embedded store is a set of named tables. \<^verbatim>\<open>df.to_sql(name, conn, if_exists='replace',
  index=False)\<close> drops a table of that name and creates it again from the frame, with the
  frame's columns and no index column.
\<close>

type_synonym ('f, 't) sqlite_db = "string \<Rightarrow> ('f, 't) frame option"

definition to_sql :: "string \<Rightarrow> ('f, 't) frame \<Rightarrow> ('f, 't) sqlite_db \<Rightarrow> ('f, 't) sqlite_db" where
  "to_sql name df db = db(name \<mapsto> df)"

fun convert_columns ::
  "string list \<Rightarrow> (('f, 't) cell \<Rightarrow> exn + ('f, 't) cell) \<Rightarrow> ('f, 't) frame \<Rightarrow> exn + ('f, 't) frame" where
  "convert_columns [] f df = Inr df"
| "convert_columns (col # cols) f df = bindE (convert_column col f df) (convert_columns cols f)"

text \<open>Lines 15 to 27: the frame is converted column by column and stored.\<close>

definition analyze_ionq_local ::
  "('f, 't) pylib \<Rightarrow> ('f, 't) frame \<Rightarrow> ('f, 't) sqlite_db \<Rightarrow> exn option \<times> ('f, 't) sqlite_db" where
  "analyze_ionq_local L df0 db =
     (case bindE (convert_column ''Date'' (date_cell L) df0) (\<lambda>df1.
           bindE (convert_columns [''Open'', ''High'', ''Low'', ''Close''] (astype_float L) df1) (\<lambda>df2.
           convert_column ''Volume'' (astype_int L) df2)) of
        Inl e \<Rightarrow> (Some e, db)
      | Inr df \<Rightarrow> (None, to_sql ''ionq_prices'' df db))"

section \<open>The time-series destination\<close>

text \<open>
  What the destination holds after the write calls it acknowledged. A value is stored under
  the organisation and bucket of the call, the measurement, the tag set, the time and the
  field key of the point; writing a value under a key that holds one replaces it. A point
  without a time is stored at the destination's clock \<open>now\<close>.
\<close>

type_synonym ('f, 't) series_key =
  "string option \<times> string \<times> string \<times> (string \<times> string) list \<times> ('f, 't) cell \<times> string"

type_synonym ('f, 't) store = "('f, 't) series_key \<Rightarrow> 'f fieldval option"

definition point_entries ::
  "('f, 't) cell \<Rightarrow> string option \<Rightarrow> string \<Rightarrow> ('f, 't) point \<Rightarrow> ('f, 't) store" where
  "point_entries now og b p =
     (\<lambda>(og', b', m, tags, t, k).
        if og' = og \<and> b' = b \<and> m = point_name p \<and> tags = point_tags p
           \<and> t = (case point_time p of None \<Rightarrow> now | Some t' \<Rightarrow> t')
        then map_of (point_fields p) k else None)"

definition store_call :: "('f, 't) cell \<Rightarrow> ('f, 't) store \<Rightarrow> ('f, 't) wcall \<Rightarrow> ('f, 't) store" where
  "store_call now s c =
     foldl (\<lambda>s p. s ++ point_entries now (org c) (bucket c) p) s (points_of (payload c))"

definition store_after :: "('f, 't) cell \<Rightarrow> ('f, 't) store \<Rightarrow> ('f, 't) wcall list \<Rightarrow> ('f, 't) store" where
  "store_after now s calls = foldl (store_call now) s calls"

section \<open>Notions used to state the properties\<close>

text \<open>
  The batches the specification describes: a sequence cut into consecutive runs of \<open>n\<close>
  elements, the last run shorter when the length is not a multiple of \<open>n\<close>.
\<close>

definition spec_batches :: "nat \<Rightarrow> 'a list \<Rightarrow> 'a list list" where
  "spec_batches n xs = map (\<lambda>j. take n (drop (n * j) xs)) [0..<(length xs + n - 1) div n]"

text \<open>
  The points of a frame: what the two import scripts compute from it before any write,
  the dates converted first and then one point for each row.
\<close>

definition frame_points ::
  "('f, 't) pylib \<Rightarrow> ('f, 't) frame \<Rightarrow> exn + ('f, 't) point list" where
  "frame_points L df0 =
     bindE (convert_column ''Date'' (date_cell L) df0)
       (\<lambda>df. mapE (make_point L (header df)) (body df))"


section \<open>Concrete inputs\<close>

text \<open>
  An interpretation of the library for frames whose price and volume cells are numbers:
  floats are rationals, a date is kept as its text, and no string is read as a number.
  With it the model runs on the concrete frames below.
\<close>

definition numeric_lib :: "(rat, string) pylib" where
  "numeric_lib =
     \<lparr>float_of_int = (\<lambda>n. Inr (of_int n)),
      float_of_str = (\<lambda>s. Inl ValueError),
      int_of_float = (\<lambda>x. Inr (if x < 0 then - \<lfloor>- x\<rfloor> else \<lfloor>x\<rfloor>)),
      int_of_str = (\<lambda>s. Inl ValueError),
      to_datetime = (\<lambda>c. case c of CStr s \<Rightarrow> Inr s | CTime t \<Rightarrow> Inr t | _ \<Rightarrow> Inl ParserError)\<rparr>"

definition ohlcv_header :: "string list" where
  "ohlcv_header = [''Date'', ''Open'', ''High'', ''Low'', ''Close'', ''Volume'']"

definition sample_row :: "(rat, string) cell list" where
  "sample_row = [CStr ''2021-01-01'', CFloat 10, CFloat 11, CFloat (19 / 2), CFloat (21 / 2), CInt 1000]"

definition sample_point :: "(rat, string) point" where
  "sample_point =
     \<lparr>point_name = ''ionq_stock'', point_tags = [], point_time = Some (CTime ''2021-01-01''),
      point_fields = [(''open'', FloatField 10), (''high'', FloatField 11),
        (''low'', FloatField (19 / 2)), (''close'', FloatField (21 / 2)),
        (''volume'', IntField 1000)]\<rparr>"

definition acknowledging :: "(rat, string) dest" where
  "acknowledging = \<lparr>respond = (\<lambda>k c. None), answer = (\<lambda>q. Inr [])\<rparr>"

definition negative_volume_row :: "(rat, string) cell list" where
  "negative_volume_row =
     [CStr ''2021-01-04'', CFloat 10, CFloat 11, CFloat (19 / 2), CFloat (21 / 2), CInt (- 5)]"

definition inverted_row :: "(rat, string) cell list" where
  "inverted_row =
     [CStr ''2021-01-05'', CFloat 10, CFloat 9, CFloat 11, CFloat (21 / 2), CInt 1000]"

definition answering_99 :: "(rat, string) dest" where
  "answering_99 =
     \<lparr>respond = (\<lambda>k c. None),
      answer = (\<lambda>q. Inr [[\<lparr>rec_value = FloatField 99, rec_time = ''2021-01-01''\<rparr>]])\<rparr>"

definition unparsable_row :: "(rat, string) cell list" where
  "unparsable_row =
     [CStr ''2021-01-06'', CFloat 10, CFloat 11, CFloat (19 / 2), CStr ''n/a'', CInt 1000]"

definition failing_twice :: "(rat, string) dest" where
  "failing_twice =
     \<lparr>respond = (\<lambda>k c. if k < 2 then Some ConnectionError else None),
      answer = (\<lambda>q. Inr [])\<rparr>"


section \<open>The loops\<close>

lemma mapE_length: "mapE f xs = Inr ys \<Longrightarrow> length ys = length xs"
  by (induction xs arbitrary: ys) (auto split: sum.splits)

lemma mapE_append:
  "mapE f (xs @ ys) =
     (case mapE f xs of Inl e \<Rightarrow> Inl e
      | Inr us \<Rightarrow> (case mapE f ys of Inl e \<Rightarrow> Inl e | Inr vs \<Rightarrow> Inr (us @ vs)))"
  by (induction xs) (auto split: sum.splits)

lemma mapE_take: "mapE f xs = Inr ys \<Longrightarrow> mapE f (take n xs) = Inr (take n ys)"
proof (induction xs arbitrary: ys n)
  case Nil
  then show ?case by simp
next
  case (Cons x xs)
  then show ?case by (cases n) (auto split: sum.splits)
qed

lemma mapE_drop: "mapE f xs = Inr ys \<Longrightarrow> mapE f (drop n xs) = Inr (drop n ys)"
proof (induction xs arbitrary: ys n)
  case Nil
  then show ?case by simp
next
  case (Cons x xs)
  then show ?case by (cases n) (auto split: sum.splits)
qed

lemma mapE_nth: "mapE f xs = Inr ys \<Longrightarrow> i < length xs \<Longrightarrow> f (xs ! i) = Inr (ys ! i)"
proof (induction xs arbitrary: ys i)
  case Nil
  then show ?case by simp
next
  case (Cons x xs)
  then show ?case by (cases i) (auto split: sum.splits)
qed

lemma import_loop_append:
  "import_loop L D hdr (rs1 @ rs2) i pts w =
     (case import_loop L D hdr rs1 i pts w of
        (Inl e, w') \<Rightarrow> (Inl e, w')
      | (Inr pts', w') \<Rightarrow> import_loop L D hdr rs2 (i + length rs1) pts' w')"
  by (induction rs1 arbitrary: i pts w) (auto simp: Let_def split: sum.splits prod.splits option.splits)

lemma import_loop_pending:
  "mapE (make_point L hdr) rows = Inr ps \<Longrightarrow> length pts + length rows < 1000 \<Longrightarrow>
   import_loop L D hdr rows i pts w = (Inr (pts @ ps), w)"
  by (induction rows arbitrary: i pts ps) (auto simp: Let_def split: sum.splits)

lemma import_loop_flush:
  "mapE (make_point L hdr) rows = Inr ps \<Longrightarrow> length pts + length rows = 1000 \<Longrightarrow> rows \<noteq> [] \<Longrightarrow>
   import_loop L D hdr rows i pts w =
     (case write_api_write D (write_batch (pts @ ps)) w of
        (Some e, w') \<Rightarrow> (Inl e, w')
      | (None, w') \<Rightarrow> (Inr [], print_msg (Msg_Imported (i + length rows)) w'))"
proof -
  assume m: "mapE (make_point L hdr) rows = Inr ps" and l: "length pts + length rows = 1000"
    and ne: "rows \<noteq> []"
  obtain rs r where rows: "rows = rs @ [r]" using ne by (metis rev_exhaust)
  from m rows obtain qs q where ps: "ps = qs @ [q]" and mq: "mapE (make_point L hdr) rs = Inr qs"
    and mr: "make_point L hdr r = Inr q"
    by (auto simp: mapE_append split: sum.splits)
  have lq: "length qs = length rs" using mq by (rule mapE_length)
  have "import_loop L D hdr rs i pts w = (Inr (pts @ qs), w)"
    using mq l rows by (intro import_loop_pending) auto
  then show ?thesis
    using mr l lq by (auto simp: rows ps import_loop_append Let_def split: prod.splits option.splits)
qed


lemma take_drop_take:
  "a + n \<le> b \<Longrightarrow> take n (drop a (take b xs)) = take n (drop a xs)"
  by (simp add: drop_take min_def)

lemma import_loop_chunks:
  "mapE (make_point L hdr) rows = Inr ps \<Longrightarrow> length rows = 1000 * k \<Longrightarrow>
   (\<forall>j<k. \<forall>c. respond D (attempts w + j) c = None) \<Longrightarrow>
   import_loop L D hdr rows i [] w =
     (Inr [], w\<lparr>written := written w @ map (\<lambda>j. write_batch (take 1000 (drop (1000 * j) ps))) [0..<k],
               attempts := attempts w + k,
               printed := printed w @ map (\<lambda>j. Msg_Imported (i + 1000 * (j + 1))) [0..<k]\<rparr>)"
proof (induction k arbitrary: rows ps)
  case 0
  then show ?case by simp
next
  case (Suc k)
  let ?r1 = "take (1000 * k) rows" and ?r2 = "drop (1000 * k) rows"
  let ?p1 = "take (1000 * k) ps" and ?p2 = "drop (1000 * k) ps"
  let ?w1 = "w\<lparr>written := written w @ map (\<lambda>j. write_batch (take 1000 (drop (1000 * j) ?p1))) [0..<k],
               attempts := attempts w + k,
               printed := printed w @ map (\<lambda>j. Msg_Imported (i + 1000 * (j + 1))) [0..<k]\<rparr>"
  have lp: "length ps = 1000 * Suc k" using Suc.prems(1,2) by (simp add: mapE_length)
  have m1: "mapE (make_point L hdr) ?r1 = Inr ?p1" using Suc.prems(1) by (rule mapE_take)
  have m2: "mapE (make_point L hdr) ?r2 = Inr ?p2" using Suc.prems(1) by (rule mapE_drop)
  have l1: "length ?r1 = 1000 * k" using Suc.prems(2) by simp
  have l2: "length ?r2 = 1000" using Suc.prems(2) by simp
  have ne: "?r2 \<noteq> []" using l2 by auto
  have r1: "\<forall>j<k. \<forall>c. respond D (attempts w + j) c = None" using Suc.prems(3) by simp
  have s1: "import_loop L D hdr ?r1 i [] w = (Inr [], ?w1)"
    using Suc.IH [OF m1 l1 r1] .
  have same: "map (\<lambda>j. write_batch (take 1000 (drop (1000 * j) ?p1))) [0..<k]
            = map (\<lambda>j. write_batch (take 1000 (drop (1000 * j) ps))) [0..<k]"
    by (rule map_cong) (auto simp: take_drop_take)
  have resp: "respond D (attempts ?w1) (write_batch ?p2) = None"
    using Suc.prems(3) by simp
  have tk: "take 1000 ?p2 = ?p2" using lp by simp
  have s2: "import_loop L D hdr ?r2 (i + 1000 * k) [] ?w1 =
      (Inr [], print_msg (Msg_Imported (i + 1000 * k + 1000))
         (?w1\<lparr>written := written ?w1 @ [write_batch ?p2], attempts := attempts ?w1 + 1\<rparr>))"
    using import_loop_flush [OF m2 _ ne, of "[]" D "i + 1000 * k" ?w1] l2 resp
    by (simp add: write_api_write_def)
  have "import_loop L D hdr rows i [] w = import_loop L D hdr (?r1 @ ?r2) i [] w" by simp
  also have "\<dots> = import_loop L D hdr ?r2 (i + 1000 * k) [] ?w1"
    by (simp only: import_loop_append s1 l1 split: prod.splits sum.splits) simp
  also note s2
  finally show ?case
    by (simp add: same tk print_msg_def)
qed


lemma import_loop_all:
  assumes m: "mapE (make_point L hdr) rows = Inr ps"
    and r: "\<forall>j<length rows div 1000. \<forall>c. respond D (attempts w + j) c = None"
  shows "import_loop L D hdr rows i [] w =
     (Inr (drop (1000 * (length ps div 1000)) ps),
      w\<lparr>written := written w @
            map (\<lambda>j. write_batch (take 1000 (drop (1000 * j) ps))) [0..<length ps div 1000],
        attempts := attempts w + length ps div 1000,
        printed := printed w @
            map (\<lambda>j. Msg_Imported (i + 1000 * (j + 1))) [0..<length ps div 1000]\<rparr>)"
proof -
  define k where "k = length rows div 1000"
  let ?r1 = "take (1000 * k) rows" and ?r2 = "drop (1000 * k) rows"
  let ?p1 = "take (1000 * k) ps" and ?p2 = "drop (1000 * k) ps"
  have lp: "length ps = length rows" using m by (rule mapE_length)
  have kp: "length ps div 1000 = k" by (simp add: lp k_def)
  have m1: "mapE (make_point L hdr) ?r1 = Inr ?p1" using m by (rule mapE_take)
  have m2: "mapE (make_point L hdr) ?r2 = Inr ?p2" using m by (rule mapE_drop)
  have kle: "1000 * k \<le> length rows" by (simp add: k_def)
  have l1: "length ?r1 = 1000 * k" using kle by simp
  have l2: "length ?r2 < 1000"
  proof -
    have "length rows = 1000 * k + length rows mod 1000" by (simp add: k_def)
    then have "length ?r2 = length rows mod 1000" by simp
    then show ?thesis by simp
  qed
  have r1: "\<forall>j<k. \<forall>c. respond D (attempts w + j) c = None" using r by (simp add: k_def)
  have same: "map (\<lambda>j. write_batch (take 1000 (drop (1000 * j) ?p1))) [0..<k]
            = map (\<lambda>j. write_batch (take 1000 (drop (1000 * j) ps))) [0..<k]"
    by (rule map_cong) (auto simp: take_drop_take)
  note s1 = import_loop_chunks [OF m1 l1 r1, of i]
  have "import_loop L D hdr rows i [] w = import_loop L D hdr (?r1 @ ?r2) i [] w" by simp
  also have "\<dots> = import_loop L D hdr ?r2 (i + 1000 * k) []
      (w\<lparr>written := written w @ map (\<lambda>j. write_batch (take 1000 (drop (1000 * j) ?p1))) [0..<k],
         attempts := attempts w + k,
         printed := printed w @ map (\<lambda>j. Msg_Imported (i + 1000 * (j + 1))) [0..<k]\<rparr>)"
    by (simp only: import_loop_append s1 l1 split: prod.splits sum.splits) simp
  also have "\<dots> = (Inr ([] @ ?p2),
      w\<lparr>written := written w @ map (\<lambda>j. write_batch (take 1000 (drop (1000 * j) ?p1))) [0..<k],
         attempts := attempts w + k,
         printed := printed w @ map (\<lambda>j. Msg_Imported (i + 1000 * (j + 1))) [0..<k]\<rparr>)"
    using l2 by (intro import_loop_pending [OF m2]) simp
  finally show ?thesis by (simp add: same kp)
qed

lemma ionq_loop_append:
  "ionq_loop L D hdr (rs1 @ rs2) n w =
     (case ionq_loop L D hdr rs1 n w of
        (Inl e, w') \<Rightarrow> (Inl e, w')
      | (Inr n', w') \<Rightarrow> ionq_loop L D hdr rs2 n' w')"
  by (induction rs1 arbitrary: n w) (auto simp: Let_def split: sum.splits prod.splits option.splits)

lemma ionq_loop_all:
  "mapE (make_point L hdr) rows = Inr ps \<Longrightarrow>
   (\<forall>j<length rows. \<forall>c. respond D (attempts w + j) c = None) \<Longrightarrow>
   \<exists>w'. ionq_loop L D hdr rows n w = (Inr (n + length rows), w') \<and>
        written w' = written w @ map write_point ps \<and>
        attempts w' = attempts w + length ps \<and> queries w' = queries w"
proof (induction rows arbitrary: ps n w)
  case Nil
  then show ?case by simp
next
  case (Cons row rows)
  from Cons.prems(1) obtain p qs where p: "make_point L hdr row = Inr p"
    and qs: "mapE (make_point L hdr) rows = Inr qs" and ps: "ps = p # qs"
    by (auto split: sum.splits)
  have r0: "respond D (attempts w) (write_point p) = None"
    using Cons.prems(2) by (metis add.right_neutral length_greater_0_conv list.distinct(1))
  let ?w1 = "w\<lparr>written := written w @ [write_point p], attempts := attempts w + 1\<rparr>"
  let ?w2 = "if (n + 1) mod 100 = 0 then print_msg (Msg_Imported (n + 1)) ?w1 else ?w1"
  have r': "\<forall>j<length rows. \<forall>c. respond D (attempts ?w2 + j) c = None"
    using Cons.prems(2) by (auto simp: print_msg_def)
  from Cons.IH [OF qs r', of "n + 1"] obtain w' where
    "ionq_loop L D hdr rows (n + 1) ?w2 = (Inr (n + 1 + length rows), w')"
    "written w' = written ?w2 @ map write_point qs"
    "attempts w' = attempts ?w2 + length qs" "queries w' = queries ?w2"
    by blast
  then show ?case using p r0
    by (auto simp: write_api_write_def ps print_msg_def Let_def)
qed

section \<open>Whole runs\<close>

lemma print_records_keeps:
  "written (print_records line tables w) = written w"
  "attempts (print_records line tables w) = attempts w"
  "queries (print_records line tables w) = queries w"
proof -
  have "\<And>w. written (foldl (\<lambda>w r. print_msg (line (rec_value r) (rec_time r)) w) w rs) = written w
          \<and> attempts (foldl (\<lambda>w r. print_msg (line (rec_value r) (rec_time r)) w) w rs) = attempts w
          \<and> queries (foldl (\<lambda>w r. print_msg (line (rec_value r) (rec_time r)) w) w rs) = queries w"
    for rs :: "('a, 'b) flux_record list"
    by (induction rs) (auto simp: print_msg_def)
  then show "written (print_records line tables w) = written w"
    "attempts (print_records line tables w) = attempts w"
    "queries (print_records line tables w) = queries w"
    by (simp_all add: print_records_def)
qed

lemma frame_points_Inr:
  "frame_points L df0 = Inr ps \<Longrightarrow>
   \<exists>df. convert_column ''Date'' (date_cell L) df0 = Inr df \<and>
        mapE (make_point L (header df)) (body df) = Inr ps"
  by (auto simp: frame_points_def bindE_def split: sum.splits)

lemma influx_after_loop:
  assumes "convert_column ''Date'' (date_cell L) df0 = Inr df"
    and "import_loop L D (header df) (body df) 0 []
           (print_msg (Msg_Found (length (body df))) (print_msg (Msg_Reading CSV_FILE) fresh))
         = (Inr pend, w3)"
  shows "import_csv_to_influxdb L D df0 =
     (case (if pend \<noteq> [] then write_api_write D (write_batch pend) w3 else (None, w3)) of
        (Some e, w4) \<Rightarrow> (Some e, w4)
      | (None, w4) \<Rightarrow>
          (case answer D (verify_query INFLUX_BUCKET) of
             Inl e \<Rightarrow> (Some e, print_msg (Msg_Success (length (body df))) w4
                              \<lparr>queries := queries w4 @ [verify_query INFLUX_BUCKET]\<rparr>)
           | Inr tables \<Rightarrow>
               (None, print_records Msg_Last_Close tables
                        (print_msg (Msg_Success (length (body df))) w4
                           \<lparr>queries := queries w4 @ [verify_query INFLUX_BUCKET]\<rparr>))))"
  unfolding import_csv_to_influxdb_def Let_def assms(1) sum.case assms(2) prod.case query_api_query_def
  by (simp add: print_msg_def split: prod.splits option.splits sum.splits)

lemma ceil_div:
  fixes m n :: nat
  assumes "0 < n"
  shows "(m + n - 1) div n = m div n + (if m mod n = 0 then 0 else 1)"
proof -
  define q r where "q = m div n" and "r = m mod n"
  have m: "m = q * n + r" and r: "r < n" using assms by (simp_all add: q_def r_def)
  have dv: "(a + c * n) div n = c + a div n" for a c :: nat
    using assms by simp
  show ?thesis
  proof (cases "r = 0")
    case True
    have "m + n - 1 = (n - 1) + q * n" using m True assms by simp
    then have "(m + n - 1) div n = q + (n - 1) div n" by (simp only: dv)
    moreover have "(n - 1) div n = 0" using assms by simp
    ultimately show ?thesis using True by (simp add: q_def r_def)
  next
    case False
    have "m + n - 1 = (r - 1) + (q + 1) * n" using m False by simp
    then have "(m + n - 1) div n = (q + 1) + (r - 1) div n" by (simp only: dv)
    moreover have "(r - 1) div n = 0" using r by simp
    ultimately show ?thesis using False by (simp add: q_def r_def)
  qed
qed

lemma spec_batches_split:
  assumes "0 < n"
  shows "spec_batches n ps =
     map (\<lambda>j. take n (drop (n * j) ps)) [0..<length ps div n] @
     (if drop (n * (length ps div n)) ps = [] then [] else [drop (n * (length ps div n)) ps])"
proof (cases "length ps mod n = 0")
  case True
  have "n * (length ps div n) = length ps"
    using True mult_div_mod_eq [of n "length ps"] by simp
  then show ?thesis
    unfolding spec_batches_def ceil_div [OF assms] using True by simp
next
  case False
  have e: "length ps = n * (length ps div n) + length ps mod n" by simp
  have "length ps mod n < n" using assms by simp
  then have lt: "length ps - n * (length ps div n) \<le> n" using e by linarith
  have ne: "\<not> length ps \<le> n * (length ps div n)" using e False by linarith
  have tk: "take n (drop (n * (length ps div n)) ps) = drop (n * (length ps div n)) ps"
    using lt by simp
  show ?thesis
    unfolding spec_batches_def ceil_div [OF assms] using False ne tk by simp
qed

lemma influx_run_acknowledged:
  assumes fp: "frame_points L df0 = Inr ps"
    and ack: "\<forall>k c. respond D k c = None"
  shows "written (snd (import_csv_to_influxdb L D df0)) = map write_batch (spec_batches 1000 ps)"
    and "attempts (snd (import_csv_to_influxdb L D df0)) = length (spec_batches 1000 ps)"
    and "queries (snd (import_csv_to_influxdb L D df0)) = [verify_query INFLUX_BUCKET]"
    and "fst (import_csv_to_influxdb L D df0) =
           (case answer D (verify_query INFLUX_BUCKET) of Inl e \<Rightarrow> Some e | Inr tables \<Rightarrow> None)"
proof -
  from frame_points_Inr [OF fp] obtain df where
    cc: "convert_column ''Date'' (date_cell L) df0 = Inr df"
    and m: "mapE (make_point L (header df)) (body df) = Inr ps" by blast
  define k where "k = length ps div 1000"
  define rest where "rest = drop (1000 * k) ps"
  define full where "full = map (\<lambda>j. write_batch (take 1000 (drop (1000 * j) ps))) [0..<k]"
  define w2 :: "('a, 'b) world" where
    "w2 = print_msg (Msg_Found (length (body df))) (print_msg (Msg_Reading CSV_FILE) fresh)"
  define w3 where "w3 = w2\<lparr>written := written w2 @ full, attempts := attempts w2 + k,
      printed := printed w2 @ map (\<lambda>j. Msg_Imported (0 + 1000 * (j + 1))) [0..<k]\<rparr>"
  have r: "\<forall>j<length (body df) div 1000. \<forall>c. respond D (attempts w2 + j) c = None"
    using ack by simp
  have lp: "import_loop L D (header df) (body df) 0 [] w2 = (Inr rest, w3)"
    using import_loop_all [OF m r, of 0] by (simp only: k_def rest_def full_def w3_def)
  have sb: "map write_batch (spec_batches 1000 ps) = full @ (if rest = [] then [] else [write_batch rest])"
    by (simp add: spec_batches_split full_def rest_def k_def)
  have w2f: "written w2 = []" "attempts w2 = 0" "queries w2 = []"
    by (simp_all add: w2_def print_msg_def fresh_def)
  have w3f: "written w3 = full" "attempts w3 = k" "queries w3 = []"
    by (simp_all add: w3_def w2f)
  have lf: "length full = k" by (simp add: full_def)
  note run = influx_after_loop [OF cc lp [unfolded w2_def]]
  show "written (snd (import_csv_to_influxdb L D df0)) = map write_batch (spec_batches 1000 ps)"
    unfolding run sb
    by (simp add: write_api_write_def ack w3f print_records_keeps print_msg_def split: sum.splits)
  show "attempts (snd (import_csv_to_influxdb L D df0)) = length (spec_batches 1000 ps)"
    unfolding run length_map [of write_batch "spec_batches 1000 ps", symmetric] sb
    by (simp add: write_api_write_def ack w3f lf print_records_keeps print_msg_def split: sum.splits)
  show "queries (snd (import_csv_to_influxdb L D df0)) = [verify_query INFLUX_BUCKET]"
    unfolding run
    by (simp add: write_api_write_def ack w3f print_records_keeps print_msg_def split: sum.splits)
  show "fst (import_csv_to_influxdb L D df0) =
           (case answer D (verify_query INFLUX_BUCKET) of Inl e \<Rightarrow> Some e | Inr tables \<Rightarrow> None)"
    unfolding run
    by (simp add: write_api_write_def ack split: sum.splits)
qed

lemma mapE_replicate: "f x = Inr y \<Longrightarrow> mapE f (replicate n x) = Inr (replicate n y)"
  by (induction n) auto

lemma convert_column_body_length:
  "convert_column name f df = Inr df' \<Longrightarrow>
   header df' = header df \<and> length (body df') = length (body df)"
  by (auto simp: convert_column_def bindE_def split: if_splits sum.splits dest: mapE_length)

lemma frame_points_length: "frame_points L df0 = Inr ps \<Longrightarrow> length ps = length (body df0)"
  by (auto simp: frame_points_def bindE_def split: sum.splits
      dest!: mapE_length convert_column_body_length)

lemma sample_row_date:
  "bindE (getitem ohlcv_header sample_row ''Date'')
     (\<lambda>c. bindE (date_cell numeric_lib c) (\<lambda>v. Inr (setitem ohlcv_header sample_row ''Date'' v)))
   = Inr (CTime ''2021-01-01'' # tl sample_row)"
  by (simp add: getitem_def setitem_def ohlcv_header_def sample_row_def bindE_def date_cell_def
      numeric_lib_def)

lemma sample_row_point:
  "make_point numeric_lib ohlcv_header (CTime ''2021-01-01'' # tl sample_row) = Inr sample_point"
  by (simp add: make_point_def getitem_def ohlcv_header_def sample_row_def bindE_def
      numeric_lib_def field_def time_of_def Point_def sample_point_def)





section \<open>The point of a row\<close>

lemma make_point_ok:
  assumes "getitem hdr row ''Date'' = Inr d"
    and "bindE (getitem hdr row ''Open'') (py_float L) = Inr op"
    and "bindE (getitem hdr row ''High'') (py_float L) = Inr hi"
    and "bindE (getitem hdr row ''Low'') (py_float L) = Inr lo"
    and "bindE (getitem hdr row ''Close'') (py_float L) = Inr cl"
    and "bindE (getitem hdr row ''Volume'') (py_int L) = Inr vol"
  shows "make_point L hdr row =
     Inr \<lparr>point_name = ''ionq_stock'', point_tags = [], point_time = Some d,
          point_fields = [(''open'', FloatField op), (''high'', FloatField hi),
            (''low'', FloatField lo), (''close'', FloatField cl), (''volume'', IntField vol)]\<rparr>"
  unfolding make_point_def assms
  by (simp add: bindE_def field_def time_of_def Point_def)

lemma make_point_Inr:
  assumes "make_point L hdr row = Inr p"
  shows "\<exists>d op hi lo cl vol.
     getitem hdr row ''Date'' = Inr d
     \<and> bindE (getitem hdr row ''Open'') (py_float L) = Inr op
     \<and> bindE (getitem hdr row ''High'') (py_float L) = Inr hi
     \<and> bindE (getitem hdr row ''Low'') (py_float L) = Inr lo
     \<and> bindE (getitem hdr row ''Close'') (py_float L) = Inr cl
     \<and> bindE (getitem hdr row ''Volume'') (py_int L) = Inr vol
     \<and> p = \<lparr>point_name = ''ionq_stock'', point_tags = [], point_time = Some d,
          point_fields = [(''open'', FloatField op), (''high'', FloatField hi),
            (''low'', FloatField lo), (''close'', FloatField cl), (''volume'', IntField vol)]\<rparr>"
proof -
  obtain d where d: "getitem hdr row ''Date'' = Inr d"
    using assms by (cases "getitem hdr row ''Date''") (simp_all add: make_point_def bindE_def)
  obtain op where op: "bindE (getitem hdr row ''Open'') (py_float L) = Inr op"
    using assms d by (cases "bindE (getitem hdr row ''Open'') (py_float L)")
      (simp_all add: make_point_def bindE_def [of "Inl e" for e] bindE_def [of "Inr x" for x])
  obtain hi where hi: "bindE (getitem hdr row ''High'') (py_float L) = Inr hi"
    using assms d op by (cases "bindE (getitem hdr row ''High'') (py_float L)")
      (simp_all add: make_point_def bindE_def [of "Inl e" for e] bindE_def [of "Inr x" for x])
  obtain lo where lo: "bindE (getitem hdr row ''Low'') (py_float L) = Inr lo"
    using assms d op hi by (cases "bindE (getitem hdr row ''Low'') (py_float L)")
      (simp_all add: make_point_def bindE_def [of "Inl e" for e] bindE_def [of "Inr x" for x])
  obtain cl where cl: "bindE (getitem hdr row ''Close'') (py_float L) = Inr cl"
    using assms d op hi lo by (cases "bindE (getitem hdr row ''Close'') (py_float L)")
      (simp_all add: make_point_def bindE_def [of "Inl e" for e] bindE_def [of "Inr x" for x])
  obtain vol where vol: "bindE (getitem hdr row ''Volume'') (py_int L) = Inr vol"
    using assms d op hi lo cl by (cases "bindE (getitem hdr row ''Volume'') (py_int L)")
      (simp_all add: make_point_def bindE_def [of "Inl e" for e] bindE_def [of "Inr x" for x])
  from assms show ?thesis
    unfolding make_point_ok [OF d op hi lo cl vol] using d op hi lo cl vol by auto
qed

lemma getitem_setitem:
  "getitem hdr (setitem hdr row n v) m =
     (if m = n then (case getitem hdr row n of Inl e \<Rightarrow> Inl e | Inr c \<Rightarrow> Inr v)
      else getitem hdr row m)"
proof -
  have "map_of (zip hdr (map (\<lambda>(h, c). if h = n then v else c) (zip hdr row))) m
        = map_option (\<lambda>c. if m = n then v else c) (map_of (zip hdr row) m)"
  proof (induction hdr arbitrary: row)
    case Nil
    then show ?case by simp
  next
    case (Cons h hs)
    then show ?case by (cases row) auto
  qed
  then show ?thesis
    by (auto simp: getitem_def setitem_def split: option.splits)
qed


lemma concat_batches_take:
  "concat (map (\<lambda>j. take n (drop (n * j) xs)) [0..<k]) = take (n * k) xs"
proof (induction k)
  case 0
  then show ?case by simp
next
  case (Suc k)
  have "take (n * k) xs @ take n (drop (n * k) xs) = take (n * k + n) xs"
    by (simp add: take_add)
  then show ?case using Suc by (simp add: add.commute)
qed

lemma concat_spec_batches:
  assumes "0 < n"
  shows "concat (spec_batches n xs) = xs"
proof -
  define q r where "q = length xs div n" and "r = length xs mod n"
  have e: "length xs = n * q + r" and r: "r < n" using assms by (simp_all add: q_def r_def)
  have c: "(length xs + n - 1) div n = q + (if r = 0 then 0 else 1)"
    unfolding q_def r_def by (rule ceil_div [OF assms])
  have "length xs \<le> n * (q + (if r = 0 then 0 else 1))"
    using e r by (cases "r = 0") simp_all
  then have "length xs \<le> n * ((length xs + n - 1) div n)"
    by (simp only: c)
  then show ?thesis
    by (simp add: spec_batches_def concat_batches_take)
qed

lemma print_records_printed:
  "printed (print_records line tables w) =
     printed w @ map (\<lambda>r. line (rec_value r) (rec_time r)) (concat tables)"
proof -
  have "printed (foldl (\<lambda>w r. print_msg (line (rec_value r) (rec_time r)) w) w rs)
        = printed w @ map (\<lambda>r. line (rec_value r) (rec_time r)) rs"
    for rs :: "('a, 'b) flux_record list" and w
    by (induction rs arbitrary: w) (auto simp: print_msg_def)
  then show ?thesis by (simp add: print_records_def)
qed

section \<open>Runs against a destination that acknowledges every call\<close>

lemma print_records_eq:
  "print_records line tables w =
     w\<lparr>printed := printed w @ map (\<lambda>r. line (rec_value r) (rec_time r)) (concat tables)\<rparr>"
proof -
  have "foldl (\<lambda>w r. print_msg (line (rec_value r) (rec_time r)) w) w rs
        = w\<lparr>printed := printed w @ map (\<lambda>r. line (rec_value r) (rec_time r)) rs\<rparr>"
    for rs :: "('a, 'b) flux_record list" and w
    by (induction rs arbitrary: w) (auto simp: print_msg_def)
  then show ?thesis by (simp add: print_records_def)
qed

lemma influx_run_world:
  assumes fp: "frame_points L df0 = Inr ps"
    and ack: "\<forall>k c. respond D k c = None"
  shows "import_csv_to_influxdb L D df0 =
     (case answer D (verify_query INFLUX_BUCKET) of
        Inl e \<Rightarrow> (Some e,
          \<lparr>written = map write_batch (spec_batches 1000 ps),
           attempts = length (spec_batches 1000 ps),
           queries = [verify_query INFLUX_BUCKET],
           printed = [Msg_Reading CSV_FILE, Msg_Found (length ps)] @
             map (\<lambda>j. Msg_Imported (1000 * (j + 1))) [0..<length ps div 1000] @
             [Msg_Success (length ps)]\<rparr>)
      | Inr tables \<Rightarrow> (None,
          \<lparr>written = map write_batch (spec_batches 1000 ps),
           attempts = length (spec_batches 1000 ps),
           queries = [verify_query INFLUX_BUCKET],
           printed = [Msg_Reading CSV_FILE, Msg_Found (length ps)] @
             map (\<lambda>j. Msg_Imported (1000 * (j + 1))) [0..<length ps div 1000] @
             [Msg_Success (length ps)] @
             map (\<lambda>r. Msg_Last_Close (rec_value r) (rec_time r)) (concat tables)\<rparr>))"
proof -
  from frame_points_Inr [OF fp] obtain df where
    cc: "convert_column ''Date'' (date_cell L) df0 = Inr df"
    and m: "mapE (make_point L (header df)) (body df) = Inr ps" by blast
  have n: "length (body df) = length ps" using mapE_length [OF m] by simp
  define k where "k = length ps div 1000"
  define rest where "rest = drop (1000 * k) ps"
  define full where "full = map (\<lambda>j. write_batch (take 1000 (drop (1000 * j) ps))) [0..<k]"
  define w2 :: "('a, 'b) world" where
    "w2 = print_msg (Msg_Found (length (body df))) (print_msg (Msg_Reading CSV_FILE) fresh)"
  define w3 where "w3 = w2\<lparr>written := written w2 @ full, attempts := attempts w2 + k,
      printed := printed w2 @ map (\<lambda>j. Msg_Imported (0 + 1000 * (j + 1))) [0..<k]\<rparr>"
  have r: "\<forall>j<length (body df) div 1000. \<forall>c. respond D (attempts w2 + j) c = None"
    using ack by simp
  have lp: "import_loop L D (header df) (body df) 0 [] w2 = (Inr rest, w3)"
    using import_loop_all [OF m r, of 0] by (simp only: k_def rest_def full_def w3_def)
  have sb: "map write_batch (spec_batches 1000 ps) = full @ (if rest = [] then [] else [write_batch rest])"
    by (simp add: spec_batches_split full_def rest_def k_def)
  have lsb: "length (spec_batches 1000 ps) = k + (if rest = [] then 0 else 1)"
    using arg_cong [OF sb, of length] by (simp add: full_def)
  have w3e: "w3 = \<lparr>written = full, attempts = k, queries = [],
      printed = [Msg_Reading CSV_FILE, Msg_Found (length ps)] @
        map (\<lambda>j. Msg_Imported (1000 * (j + 1))) [0..<k]\<rparr>"
    by (simp add: w3_def w2_def print_msg_def fresh_def n)
  note run = influx_after_loop [OF cc lp [unfolded w2_def]]
  show ?thesis
    unfolding run sb lsb k_def [symmetric] w3e
    by (simp add: write_api_write_def ack print_msg_def n print_records_eq split: sum.splits)
qed


lemma ionq_loop_exact:
  "mapE (make_point L hdr) rows = Inr ps \<Longrightarrow>
   (\<forall>j<length rows. \<forall>c. respond D (attempts w + j) c = None) \<Longrightarrow>
   ionq_loop L D hdr rows n w =
     (Inr (n + length rows),
      w\<lparr>written := written w @ map write_point ps,
        attempts := attempts w + length ps,
        printed := printed w @
          map Msg_Imported (filter (\<lambda>c. c mod 100 = 0) [Suc n..<Suc (n + length rows)])\<rparr>)"
proof (induction rows arbitrary: ps n w)
  case Nil
  then show ?case by simp
next
  case (Cons row rows)
  from Cons.prems(1) obtain p qs where p: "make_point L hdr row = Inr p"
    and qs: "mapE (make_point L hdr) rows = Inr qs" and ps: "ps = p # qs"
    by (auto split: sum.splits)
  have lq: "length qs = length rows" using qs by (rule mapE_length)
  have r0: "respond D (attempts w) (write_point p) = None"
    using Cons.prems(2) [rule_format, of 0] by simp
  let ?w1 = "w\<lparr>written := written w @ [write_point p], attempts := attempts w + 1\<rparr>"
  let ?w2 = "if (n + 1) mod 100 = 0 then print_msg (Msg_Imported (n + 1)) ?w1 else ?w1"
  have r': "\<forall>j<length rows. \<forall>c. respond D (attempts ?w2 + j) c = None"
  proof (intro allI impI)
    fix j c assume "j < length rows"
    then have "respond D (attempts w + Suc j) c = None"
      using Cons.prems(2) [rule_format, of "Suc j" c] by simp
    then show "respond D (attempts ?w2 + j) c = None" by (simp add: print_msg_def)
  qed
  have "Suc n < Suc (n + length (row # rows))" by simp
  from upt_conv_Cons [OF this]
  have up: "[Suc n..<Suc (n + length (row # rows))] = Suc n # [Suc (Suc n)..<Suc (Suc n + length rows)]"
    by simp
  have step: "ionq_loop L D hdr (row # rows) n w = ionq_loop L D hdr rows (n + 1) ?w2"
    using p r0 by (simp add: write_api_write_def Let_def)
  show ?case
    unfolding step Cons.IH [OF qs r', of "n + 1"] up ps
    by (simp add: print_msg_def lq)
qed

lemma ionq_after_loop:
  assumes "convert_column ''Date'' (date_cell L) df0 = Inr df"
    and "ionq_loop L D (header df) (body df) 0 (print_msg (Msg_Loading (length (body df))) fresh)
         = (Inr n, w2)"
  shows "import_ionq L D df0 =
     (case answer D (verify_query ''stocks'') of
        Inl e \<Rightarrow> (Some e, print_msg (Msg_Success_Stock (length (body df))) w2
                         \<lparr>queries := queries w2 @ [verify_query ''stocks'']\<rparr>)
      | Inr tables \<Rightarrow>
          (None, print_records Msg_Latest_Close tables
                   (print_msg (Msg_Success_Stock (length (body df))) w2
                      \<lparr>queries := queries w2 @ [verify_query ''stocks'']\<rparr>)))"
  unfolding import_ionq_def Let_def assms(1) sum.case assms(2) prod.case query_api_query_def
  by (simp add: print_msg_def split: sum.splits)

lemma ionq_run_world:
  assumes fp: "frame_points L df0 = Inr ps"
    and ack: "\<forall>k c. respond D k c = None"
  shows "import_ionq L D df0 =
     (case answer D (verify_query ''stocks'') of
        Inl e \<Rightarrow> (Some e,
          \<lparr>written = map write_point ps, attempts = length ps,
           queries = [verify_query ''stocks''],
           printed = [Msg_Loading (length ps)] @
             map Msg_Imported (filter (\<lambda>c. c mod 100 = 0) [1..<Suc (length ps)]) @
             [Msg_Success_Stock (length ps)]\<rparr>)
      | Inr tables \<Rightarrow> (None,
          \<lparr>written = map write_point ps, attempts = length ps,
           queries = [verify_query ''stocks''],
           printed = [Msg_Loading (length ps)] @
             map Msg_Imported (filter (\<lambda>c. c mod 100 = 0) [1..<Suc (length ps)]) @
             [Msg_Success_Stock (length ps)] @
             map (\<lambda>r. Msg_Latest_Close (rec_value r) (rec_time r)) (concat tables)\<rparr>))"
proof -
  from frame_points_Inr [OF fp] obtain df where
    cc: "convert_column ''Date'' (date_cell L) df0 = Inr df"
    and m: "mapE (make_point L (header df)) (body df) = Inr ps" by blast
  have n: "length (body df) = length ps" using mapE_length [OF m] by simp
  define w1 :: "('a, 'b) world" where "w1 = print_msg (Msg_Loading (length (body df))) fresh"
  have r: "\<forall>j<length (body df). \<forall>c. respond D (attempts w1 + j) c = None"
    using ack by simp
  note lp = ionq_loop_exact [OF m r, of 0, unfolded w1_def]
  show ?thesis
    unfolding ionq_after_loop [OF cc lp]
    by (simp add: print_msg_def fresh_def n print_records_eq split: sum.splits)
qed

section \<open>Rows and points of a frame\<close>

lemma convert_column_nth:
  assumes "convert_column name f df = Inr df'" and "i < length (body df)"
  shows "\<exists>c v. getitem (header df) (body df ! i) name = Inr c \<and> f c = Inr v
           \<and> body df' ! i = setitem (header df) (body df ! i) name v"
proof -
  let ?g = "\<lambda>row. bindE (getitem (header df) row name)
              (\<lambda>c. bindE (f c) (\<lambda>v. Inr (setitem (header df) row name v)))"
  from assms(1) have m: "mapE ?g (body df) = Inr (body df')"
    by (auto simp: convert_column_def bindE_def split: if_splits sum.splits)
  from mapE_nth [OF m assms(2)] show ?thesis
    by (auto simp: bindE_def split: sum.splits)
qed

lemma frame_points_nth:
  assumes fp: "frame_points L df0 = Inr ps" and i: "i < length ps"
  shows "\<exists>t op hi lo cl vol.
     bindE (getitem (header df0) (body df0 ! i) ''Date'') (to_datetime L) = Inr t
     \<and> bindE (getitem (header df0) (body df0 ! i) ''Open'') (py_float L) = Inr op
     \<and> bindE (getitem (header df0) (body df0 ! i) ''High'') (py_float L) = Inr hi
     \<and> bindE (getitem (header df0) (body df0 ! i) ''Low'') (py_float L) = Inr lo
     \<and> bindE (getitem (header df0) (body df0 ! i) ''Close'') (py_float L) = Inr cl
     \<and> bindE (getitem (header df0) (body df0 ! i) ''Volume'') (py_int L) = Inr vol
     \<and> ps ! i = \<lparr>point_name = ''ionq_stock'', point_tags = [], point_time = Some (CTime t),
          point_fields = [(''open'', FloatField op), (''high'', FloatField hi),
            (''low'', FloatField lo), (''close'', FloatField cl), (''volume'', IntField vol)]\<rparr>"
proof -
  from frame_points_Inr [OF fp] obtain df where
    cc: "convert_column ''Date'' (date_cell L) df0 = Inr df"
    and m: "mapE (make_point L (header df)) (body df) = Inr ps" by blast
  have h: "header df = header df0" and l: "length (body df) = length (body df0)"
    using convert_column_body_length [OF cc] by simp_all
  have i0: "i < length (body df0)" and i1: "i < length (body df)"
    using i mapE_length [OF m] l by simp_all
  from convert_column_nth [OF cc i0] obtain c v where
    g: "getitem (header df0) (body df0 ! i) ''Date'' = Inr c" and dv: "date_cell L c = Inr v"
    and row: "body df ! i = setitem (header df0) (body df0 ! i) ''Date'' v" by blast
  from dv obtain t where t: "to_datetime L c = Inr t" and v: "v = CTime t"
    by (auto simp: date_cell_def bindE_def split: sum.splits)
  have other: "getitem (header df) (body df ! i) n = getitem (header df0) (body df0 ! i) n"
    if "n \<noteq> ''Date''" for n
    using that by (simp add: h row getitem_setitem)
  have date: "getitem (header df) (body df ! i) ''Date'' = Inr (CTime t)"
    by (simp add: h row getitem_setitem g v)
  from mapE_nth [OF m i1] have "make_point L (header df) (body df ! i) = Inr (ps ! i)" .
  from make_point_Inr [OF this] obtain d op hi lo cl vol where
    "getitem (header df) (body df ! i) ''Date'' = Inr d"
    "bindE (getitem (header df) (body df ! i) ''Open'') (py_float L) = Inr op"
    "bindE (getitem (header df) (body df ! i) ''High'') (py_float L) = Inr hi"
    "bindE (getitem (header df) (body df ! i) ''Low'') (py_float L) = Inr lo"
    "bindE (getitem (header df) (body df ! i) ''Close'') (py_float L) = Inr cl"
    "bindE (getitem (header df) (body df ! i) ''Volume'') (py_int L) = Inr vol"
    "ps ! i = \<lparr>point_name = ''ionq_stock'', point_tags = [], point_time = Some d,
          point_fields = [(''open'', FloatField op), (''high'', FloatField hi),
            (''low'', FloatField lo), (''close'', FloatField cl), (''volume'', IntField vol)]\<rparr>"
    by blast
  then show ?thesis
    using date g t by (simp add: other bindE_def)
qed

lemma influx_written_points:
  assumes "frame_points L df0 = Inr ps" and "\<forall>k c. respond D k c = None"
  shows "concat (map (points_of \<circ> payload) (written (snd (import_csv_to_influxdb L D df0)))) = ps"
proof -
  have "map (points_of \<circ> payload) (map write_batch bs) = bs" for bs :: "('a, 'b) point list list"
    by (induction bs) (simp_all add: write_batch_def)
  then show ?thesis
    by (simp add: influx_run_acknowledged(1) [OF assms] concat_spec_batches del: map_map)
qed

lemma ionq_written_points:
  assumes "frame_points L df0 = Inr ps" and "\<forall>k c. respond D k c = None"
  shows "concat (map (points_of \<circ> payload) (written (snd (import_ionq L D df0)))) = ps"
proof -
  have "concat (map (points_of \<circ> payload) (map write_point qs)) = qs" for qs :: "('a, 'b) point list"
    by (induction qs) (simp_all add: write_point_def)
  then show ?thesis
    by (simp add: ionq_run_world [OF assms] del: map_map split: sum.splits)
qed

text \<open>
  C9: on the remote path every row of the frame becomes one point, written in row order by
  both import scripts: its measurement is \<^verbatim>\<open>ionq_stock\<close>, it has no tags, its time is the parsed
  date of the row, and its fields are exactly open, high, low and close as floats and
  volume as an integer, each the converted cell of the row.
\<close>

theorem every_row_one_point:
  assumes "frame_points L df0 = Inr ps" and "\<forall>k c. respond D k c = None"
  shows "concat (map (points_of \<circ> payload) (written (snd (import_csv_to_influxdb L D df0)))) = ps
    \<and> concat (map (points_of \<circ> payload) (written (snd (import_ionq L D df0)))) = ps
    \<and> length ps = length (body df0)
    \<and> (\<forall>i<length ps. \<exists>t op hi lo cl vol.
         bindE (getitem (header df0) (body df0 ! i) ''Date'') (to_datetime L) = Inr t
         \<and> bindE (getitem (header df0) (body df0 ! i) ''Open'') (py_float L) = Inr op
         \<and> bindE (getitem (header df0) (body df0 ! i) ''High'') (py_float L) = Inr hi
         \<and> bindE (getitem (header df0) (body df0 ! i) ''Low'') (py_float L) = Inr lo
         \<and> bindE (getitem (header df0) (body df0 ! i) ''Close'') (py_float L) = Inr cl
         \<and> bindE (getitem (header df0) (body df0 ! i) ''Volume'') (py_int L) = Inr vol
         \<and> ps ! i = \<lparr>point_name = ''ionq_stock'', point_tags = [],
              point_time = Some (CTime t),
              point_fields = [(''open'', FloatField op), (''high'', FloatField hi),
                (''low'', FloatField lo), (''close'', FloatField cl),
                (''volume'', IntField vol)]\<rparr>)"
  using influx_written_points [OF assms] ionq_written_points [OF assms]
    frame_points_length [OF assms(1)] frame_points_nth [OF assms(1)]
  by blast

lemma numeric_row_points:
  "frame_points numeric_lib
     \<lparr>header = ohlcv_header, body = [[CStr d, CFloat a, CFloat b, CFloat c, CFloat e, CInt v]]\<rparr>
   = Inr [\<lparr>point_name = ''ionq_stock'', point_tags = [], point_time = Some (CTime d),
          point_fields = [(''open'', FloatField a), (''high'', FloatField b),
            (''low'', FloatField c), (''close'', FloatField e), (''volume'', IntField v)]\<rparr>]"
  by (simp add: frame_points_def convert_column_def bindE_def getitem_def setitem_def
      ohlcv_header_def date_cell_def numeric_lib_def make_point_def field_def time_of_def
      Point_def)

lemma spec_batches_one: "spec_batches 1000 [p] = [[p]]"
  by (simp add: spec_batches_def)

theorem every_row_one_point_witness:
  "frame_points numeric_lib \<lparr>header = ohlcv_header, body = [sample_row]\<rparr> = Inr [sample_point]
   \<and> concat (map (points_of \<circ> payload) (written (snd (import_csv_to_influxdb numeric_lib
        acknowledging \<lparr>header = ohlcv_header, body = [sample_row]\<rparr>)))) = [sample_point]
   \<and> concat (map (points_of \<circ> payload) (written (snd (import_ionq numeric_lib
        acknowledging \<lparr>header = ohlcv_header, body = [sample_row]\<rparr>)))) = [sample_point]"
proof -
  have fp: "frame_points numeric_lib \<lparr>header = ohlcv_header, body = [sample_row]\<rparr>
      = Inr [sample_point]"
    unfolding sample_row_def sample_point_def by (rule numeric_row_points)
  have ack: "\<forall>k c. respond acknowledging k c = None" by (simp add: acknowledging_def)
  from every_row_one_point [OF fp ack] fp show ?thesis by simp
qed

section \<open>The verification read\<close>

text \<open>
  C2, as the code has it: after the last write each import script sends one query for the
  most recent \<^verbatim>\<open>close\<close> point of measurement \<^verbatim>\<open>ionq_stock\<close> in the last five years and prints
  one line for each record returned. The value read is compared with nothing: whenever the
  query returns, whatever it returns, the run ends without an exception.
\<close>

theorem verification_read_only_printed:
  assumes "frame_points L df0 = Inr ps" and "\<forall>k c. respond D k c = None"
    and "answer D (verify_query INFLUX_BUCKET) = Inr tables"
    and "answer D (verify_query ''stocks'') = Inr tables'"
  shows "fst (import_csv_to_influxdb L D df0) = None
    \<and> queries (snd (import_csv_to_influxdb L D df0)) = [verify_query INFLUX_BUCKET]
    \<and> written (snd (import_csv_to_influxdb L D df0)) = map write_batch (spec_batches 1000 ps)
    \<and> (\<exists>pre. printed (snd (import_csv_to_influxdb L D df0)) =
          pre @ map (\<lambda>r. Msg_Last_Close (rec_value r) (rec_time r)) (concat tables))
    \<and> fst (import_ionq L D df0) = None
    \<and> queries (snd (import_ionq L D df0)) = [verify_query ''stocks'']
    \<and> written (snd (import_ionq L D df0)) = map write_point ps
    \<and> (\<exists>pre. printed (snd (import_ionq L D df0)) =
          pre @ map (\<lambda>r. Msg_Latest_Close (rec_value r) (rec_time r)) (concat tables'))"
proof -
  have a: "\<exists>pre. x # y # zs @ u # vs = pre @ vs" for x y u :: 'c and zs vs
    by (rule exI [of _ "x # y # zs @ [u]"]) simp
  have b: "\<exists>pre. x # zs @ u # vs = pre @ vs" for x u :: 'c and zs vs
    by (rule exI [of _ "x # zs @ [u]"]) simp
  show ?thesis
    unfolding influx_run_world [OF assms(1,2)] ionq_run_world [OF assms(1,2)] assms(3,4)
    by (simp add: a b)
qed

theorem verification_read_only_printed_witness:
  "frame_points numeric_lib \<lparr>header = ohlcv_header, body = [sample_row]\<rparr> = Inr [sample_point]
   \<and> answer answering_99 (verify_query INFLUX_BUCKET)
       = Inr [[\<lparr>rec_value = FloatField 99, rec_time = ''2021-01-01''\<rparr>]]
   \<and> fst (import_csv_to_influxdb numeric_lib answering_99
        \<lparr>header = ohlcv_header, body = [sample_row]\<rparr>) = None
   \<and> fst (import_ionq numeric_lib answering_99
        \<lparr>header = ohlcv_header, body = [sample_row]\<rparr>) = None"
proof -
  have fp: "frame_points numeric_lib \<lparr>header = ohlcv_header, body = [sample_row]\<rparr>
      = Inr [sample_point]"
    unfolding sample_row_def sample_point_def by (rule numeric_row_points)
  have ack: "\<forall>k c. respond answering_99 k c = None" by (simp add: answering_99_def)
  have q1: "answer answering_99 (verify_query INFLUX_BUCKET)
      = Inr [[\<lparr>rec_value = FloatField 99, rec_time = ''2021-01-01''\<rparr>]]"
    by (simp add: answering_99_def)
  have q2: "answer answering_99 (verify_query ''stocks'')
      = Inr [[\<lparr>rec_value = FloatField 99, rec_time = ''2021-01-01''\<rparr>]]"
    by (simp add: answering_99_def)
  from verification_read_only_printed [OF fp ack q1 q2] fp q1 show ?thesis by simp
qed

text \<open>
  The claim as stated fails: the last record written has close 10.5, the read returns 99,
  and the run ends without an exception, having only printed the 99.
\<close>

theorem verification_mismatch_counterexample:
  "import_csv_to_influxdb numeric_lib answering_99 \<lparr>header = ohlcv_header, body = [sample_row]\<rparr>
     = (None,
        \<lparr>written = [write_batch [sample_point]], attempts = 1,
         queries = [verify_query INFLUX_BUCKET],
         printed = [Msg_Reading CSV_FILE, Msg_Found 1, Msg_Success 1,
           Msg_Last_Close (FloatField 99) ''2021-01-01'']\<rparr>)
   \<and> map_of (point_fields sample_point) ''close'' = Some (FloatField (21 / 2))
   \<and> FloatField (21 / 2) \<noteq> (FloatField 99 :: rat fieldval)"
proof -
  have fp: "frame_points numeric_lib \<lparr>header = ohlcv_header, body = [sample_row]\<rparr>
      = Inr [sample_point]"
    unfolding sample_row_def sample_point_def by (rule numeric_row_points)
  have ack: "\<forall>k c. respond answering_99 k c = None" by (simp add: answering_99_def)
  show ?thesis
    unfolding influx_run_world [OF fp ack]
    by (simp add: answering_99_def spec_batches_one sample_point_def)
qed

section \<open>No validation of a row\<close>

text \<open>
  C3, as the code has it: a row whose Volume is a negative integer converts like any other
  row. \<^verbatim>\<open>int\<close> returns the negative number, the point of the row carries it as its
  \<^verbatim>\<open>volume\<close> field, the point is written with the others, and a run whose rows all convert
  ends without an exception.
\<close>

theorem negative_volume_is_written:
  assumes "frame_points L df0 = Inr ps" and "\<forall>k c. respond D k c = None"
    and "answer D (verify_query INFLUX_BUCKET) = Inr tables"
    and "i < length (body df0)"
    and "getitem (header df0) (body df0 ! i) ''Volume'' = Inr (CInt n)" and "n < 0"
  shows "bindE (getitem (header df0) (body df0 ! i) ''Volume'') (py_int L) = Inr n
    \<and> map_of (point_fields (ps ! i)) ''volume'' = Some (IntField n)
    \<and> concat (map (points_of \<circ> payload) (written (snd (import_csv_to_influxdb L D df0)))) = ps
    \<and> fst (import_csv_to_influxdb L D df0) = None"
proof -
  have v: "bindE (getitem (header df0) (body df0 ! i) ''Volume'') (py_int L) = Inr n"
    by (simp add: assms(5) bindE_def)
  have i: "i < length ps" using frame_points_length [OF assms(1)] assms(4) by simp
  from frame_points_nth [OF assms(1) i] v
  have "map_of (point_fields (ps ! i)) ''volume'' = Some (IntField n)" by auto
  moreover have "fst (import_csv_to_influxdb L D df0) = None"
    by (simp add: influx_run_acknowledged(4) [OF assms(1,2)] assms(3))
  ultimately show ?thesis
    using v influx_written_points [OF assms(1,2)] by simp
qed

theorem negative_volume_is_written_witness:
  "frame_points numeric_lib \<lparr>header = ohlcv_header, body = [sample_row, negative_volume_row]\<rparr>
     = Inr [sample_point,
          \<lparr>point_name = ''ionq_stock'', point_tags = [],
           point_time = Some (CTime ''2021-01-04''),
           point_fields = [(''open'', FloatField 10), (''high'', FloatField 11),
             (''low'', FloatField (19 / 2)), (''close'', FloatField (21 / 2)),
             (''volume'', IntField (- 5))]\<rparr>]
   \<and> getitem ohlcv_header negative_volume_row ''Volume'' = Inr (CInt (- 5))
   \<and> (- 5 :: int) < 0
   \<and> bindE (getitem ohlcv_header negative_volume_row ''Volume'') (py_int numeric_lib) = Inr (- 5)
   \<and> fst (import_csv_to_influxdb numeric_lib acknowledging
        \<lparr>header = ohlcv_header, body = [sample_row, negative_volume_row]\<rparr>) = None"
proof -
  let ?df = "\<lparr>header = ohlcv_header, body = [sample_row, negative_volume_row]\<rparr> :: (rat, string) frame"
  have fp: "frame_points numeric_lib ?df = Inr [sample_point,
          \<lparr>point_name = ''ionq_stock'', point_tags = [],
           point_time = Some (CTime ''2021-01-04''),
           point_fields = [(''open'', FloatField 10), (''high'', FloatField 11),
             (''low'', FloatField (19 / 2)), (''close'', FloatField (21 / 2)),
             (''volume'', IntField (- 5))]\<rparr>]"
    by (simp add: sample_point_def frame_points_def convert_column_def bindE_def getitem_def setitem_def
      ohlcv_header_def date_cell_def numeric_lib_def make_point_def field_def time_of_def
      Point_def sample_row_def negative_volume_row_def)
  have ack: "\<forall>k c. respond acknowledging k c = None" by (simp add: acknowledging_def)
  have q: "answer acknowledging (verify_query INFLUX_BUCKET) = Inr []"
    by (simp add: acknowledging_def)
  have g: "getitem (header ?df) (body ?df ! 1) ''Volume'' = Inr (CInt (- 5))"
    by (simp add: getitem_def ohlcv_header_def negative_volume_row_def)
  from negative_volume_is_written [OF fp ack q _ g] fp g show ?thesis by simp
qed

text \<open>
  The claim as stated fails: the row with Volume -5 raises nothing, its point is written with
  volume -5, nothing is reported and the run ends without an exception.
\<close>

theorem negative_volume_counterexample:
  "import_csv_to_influxdb numeric_lib acknowledging
     \<lparr>header = ohlcv_header, body = [negative_volume_row]\<rparr>
   = (None,
      \<lparr>written = [write_batch
         [\<lparr>point_name = ''ionq_stock'', point_tags = [],
           point_time = Some (CTime ''2021-01-04''),
           point_fields = [(''open'', FloatField 10), (''high'', FloatField 11),
             (''low'', FloatField (19 / 2)), (''close'', FloatField (21 / 2)),
             (''volume'', IntField (- 5))]\<rparr>]],
       attempts = 1, queries = [verify_query INFLUX_BUCKET],
       printed = [Msg_Reading CSV_FILE, Msg_Found 1, Msg_Success 1]\<rparr>)"
proof -
  note fp = numeric_row_points [of "''2021-01-04''" 10 11 "19 / 2" "21 / 2" "- 5",
      folded negative_volume_row_def]
  have ack: "\<forall>k c. respond acknowledging k c = None" by (simp add: acknowledging_def)
  show ?thesis
    unfolding influx_run_world [OF fp ack]
    by (simp add: acknowledging_def spec_batches_one)
qed

text \<open>
  C5, as the code has it: there is no integrity check. Every row whose cells convert is
  written, whatever the order of its low, open, close and high; the run prints its progress
  lines and the records the query returned, and nothing else: no warning, and nothing that
  drops a record.
\<close>

theorem no_integrity_check:
  assumes "frame_points L df0 = Inr ps" and "\<forall>k c. respond D k c = None"
    and "answer D (verify_query INFLUX_BUCKET) = Inr tables"
  shows "fst (import_csv_to_influxdb L D df0) = None
    \<and> concat (map (points_of \<circ> payload) (written (snd (import_csv_to_influxdb L D df0)))) = ps
    \<and> printed (snd (import_csv_to_influxdb L D df0)) =
        [Msg_Reading CSV_FILE, Msg_Found (length ps)] @
        map (\<lambda>j. Msg_Imported (1000 * (j + 1))) [0..<length ps div 1000] @
        [Msg_Success (length ps)] @
        map (\<lambda>r. Msg_Last_Close (rec_value r) (rec_time r)) (concat tables)"
proof -
  have "printed (snd (import_csv_to_influxdb L D df0)) =
        [Msg_Reading CSV_FILE, Msg_Found (length ps)] @
        map (\<lambda>j. Msg_Imported (1000 * (j + 1))) [0..<length ps div 1000] @
        [Msg_Success (length ps)] @
        map (\<lambda>r. Msg_Last_Close (rec_value r) (rec_time r)) (concat tables)"
    unfolding influx_run_world [OF assms(1,2)] assms(3) by simp
  moreover have "fst (import_csv_to_influxdb L D df0) = None"
    by (simp add: influx_run_acknowledged(4) [OF assms(1,2)] assms(3))
  ultimately show ?thesis
    using influx_written_points [OF assms(1,2)] by simp
qed

theorem no_integrity_check_witness:
  "frame_points numeric_lib \<lparr>header = ohlcv_header, body = [inverted_row]\<rparr>
     = Inr [\<lparr>point_name = ''ionq_stock'', point_tags = [],
           point_time = Some (CTime ''2021-01-05''),
           point_fields = [(''open'', FloatField 10), (''high'', FloatField 9),
             (''low'', FloatField 11), (''close'', FloatField (21 / 2)),
             (''volume'', IntField 1000)]\<rparr>]
   \<and> fst (import_csv_to_influxdb numeric_lib acknowledging
        \<lparr>header = ohlcv_header, body = [inverted_row]\<rparr>) = None
   \<and> printed (snd (import_csv_to_influxdb numeric_lib acknowledging
        \<lparr>header = ohlcv_header, body = [inverted_row]\<rparr>))
       = [Msg_Reading CSV_FILE, Msg_Found 1, Msg_Success 1]"
proof -
  note fp = numeric_row_points [of "''2021-01-05''" 10 9 11 "21 / 2" 1000,
      folded inverted_row_def]
  have ack: "\<forall>k c. respond acknowledging k c = None" by (simp add: acknowledging_def)
  have q: "answer acknowledging (verify_query INFLUX_BUCKET) = Inr []"
    by (simp add: acknowledging_def)
  from no_integrity_check [OF fp ack q] fp show ?thesis by simp
qed

text \<open>
  The claim as stated fails: the row has high 9 below low 11, its point is written as it is
  and the run prints no warning.
\<close>

theorem inverted_row_counterexample:
  "(9 :: rat) < 11
   \<and> import_csv_to_influxdb numeric_lib acknowledging
       \<lparr>header = ohlcv_header, body = [inverted_row]\<rparr>
     = (None,
        \<lparr>written = [write_batch
           [\<lparr>point_name = ''ionq_stock'', point_tags = [],
             point_time = Some (CTime ''2021-01-05''),
             point_fields = [(''open'', FloatField 10), (''high'', FloatField 9),
               (''low'', FloatField 11), (''close'', FloatField (21 / 2)),
               (''volume'', IntField 1000)]\<rparr>]],
         attempts = 1, queries = [verify_query INFLUX_BUCKET],
         printed = [Msg_Reading CSV_FILE, Msg_Found 1, Msg_Success 1]\<rparr>)"
proof -
  note fp = numeric_row_points [of "''2021-01-05''" 10 9 11 "21 / 2" 1000,
      folded inverted_row_def]
  have ack: "\<forall>k c. respond acknowledging k c = None" by (simp add: acknowledging_def)
  show ?thesis
    unfolding influx_run_world [OF fp ack]
    by (simp add: acknowledging_def spec_batches_one)
qed

section \<open>A row that does not convert\<close>

lemma import_loop_row_fails:
  assumes m: "mapE (make_point L hdr) (take i rows) = Inr ps" and i: "i < length rows"
    and f: "make_point L hdr (rows ! i) = Inl e"
    and r: "\<forall>j<i div 1000. \<forall>c. respond D (attempts w + j) c = None"
  shows "import_loop L D hdr rows n [] w =
     (Inl e,
      w\<lparr>written := written w @
            map (\<lambda>j. write_batch (take 1000 (drop (1000 * j) ps))) [0..<i div 1000],
        attempts := attempts w + i div 1000,
        printed := printed w @
            map (\<lambda>j. Msg_Imported (n + 1000 * (j + 1))) [0..<i div 1000]\<rparr>)"
proof -
  have lt: "length (take i rows) = i" using i by simp
  have lp: "length ps = i" using mapE_length [OF m] lt by simp
  have r': "\<forall>j<length (take i rows) div 1000. \<forall>c. respond D (attempts w + j) c = None"
    using r by (simp only: lt)
  have rows: "rows = take i rows @ (rows ! i # drop (Suc i) rows)"
    using i by (simp add: id_take_nth_drop [symmetric])
  have "import_loop L D hdr rows n [] w
      = import_loop L D hdr (take i rows @ (rows ! i # drop (Suc i) rows)) n [] w"
    using rows by simp
  also have "\<dots> = (Inl e,
      w\<lparr>written := written w @
            map (\<lambda>j. write_batch (take 1000 (drop (1000 * j) ps))) [0..<i div 1000],
        attempts := attempts w + i div 1000,
        printed := printed w @
            map (\<lambda>j. Msg_Imported (n + 1000 * (j + 1))) [0..<i div 1000]\<rparr>)"
    unfolding import_loop_append import_loop_all [OF m r'] lp
    by (simp add: f)
  finally show ?thesis .
qed

lemma influx_loop_raises:
  assumes "convert_column ''Date'' (date_cell L) df0 = Inr df"
    and "import_loop L D (header df) (body df) 0 []
           (print_msg (Msg_Found (length (body df))) (print_msg (Msg_Reading CSV_FILE) fresh))
         = (Inl e, w3)"
  shows "import_csv_to_influxdb L D df0 = (Some e, w3)"
  unfolding import_csv_to_influxdb_def Let_def assms(1) sum.case assms(2) prod.case
  by simp

lemma influx_run_row_fails:
  assumes cc: "convert_column ''Date'' (date_cell L) df0 = Inr df"
    and i: "i < length (body df)"
    and m: "mapE (make_point L (header df)) (take i (body df)) = Inr ps"
    and f: "make_point L (header df) (body df ! i) = Inl e"
    and ack: "\<forall>k c. respond D k c = None"
  shows "import_csv_to_influxdb L D df0 =
     (Some e,
      \<lparr>written = map (\<lambda>j. write_batch (take 1000 (drop (1000 * j) ps))) [0..<i div 1000],
       attempts = i div 1000, queries = [],
       printed = [Msg_Reading CSV_FILE, Msg_Found (length (body df))] @
         map (\<lambda>j. Msg_Imported (1000 * (j + 1))) [0..<i div 1000]\<rparr>)"
proof -
  have r: "\<forall>j<i div 1000. \<forall>c. respond D (attempts w + j) c = None" for w :: "('a, 'b) world"
    using ack by simp
  show ?thesis
    unfolding influx_loop_raises [OF cc import_loop_row_fails [OF m i f r]]
    by (simp add: print_msg_def fresh_def)
qed

lemma ionq_loop_row_fails:
  assumes m: "mapE (make_point L hdr) (take i rows) = Inr ps" and i: "i < length rows"
    and f: "make_point L hdr (rows ! i) = Inl e"
    and r: "\<forall>j<i. \<forall>c. respond D (attempts w + j) c = None"
  shows "ionq_loop L D hdr rows n w =
     (Inl e,
      w\<lparr>written := written w @ map write_point ps,
        attempts := attempts w + i,
        printed := printed w @
          map Msg_Imported (filter (\<lambda>c. c mod 100 = 0) [Suc n..<Suc (n + i)])\<rparr>)"
proof -
  have lt: "length (take i rows) = i" using i by simp
  have lp: "length ps = i" using mapE_length [OF m] lt by simp
  have r': "\<forall>j<length (take i rows). \<forall>c. respond D (attempts w + j) c = None"
    using r by (simp only: lt)
  have rows: "rows = take i rows @ (rows ! i # drop (Suc i) rows)"
    using i by (simp add: id_take_nth_drop [symmetric])
  have "ionq_loop L D hdr rows n w
      = ionq_loop L D hdr (take i rows @ (rows ! i # drop (Suc i) rows)) n w"
    using rows by simp
  also have "\<dots> = (Inl e,
      w\<lparr>written := written w @ map write_point ps,
        attempts := attempts w + i,
        printed := printed w @
          map Msg_Imported (filter (\<lambda>c. c mod 100 = 0) [Suc n..<Suc (n + i)])\<rparr>)"
    unfolding ionq_loop_append ionq_loop_exact [OF m r'] lp lt
    by (simp add: f)
  finally show ?thesis .
qed

lemma ionq_loop_raises:
  assumes "convert_column ''Date'' (date_cell L) df0 = Inr df"
    and "ionq_loop L D (header df) (body df) 0 (print_msg (Msg_Loading (length (body df))) fresh)
         = (Inl e, w2)"
  shows "import_ionq L D df0 = (Some e, w2)"
  unfolding import_ionq_def Let_def assms(1) sum.case assms(2) prod.case
  by simp

lemma ionq_run_row_fails:
  assumes cc: "convert_column ''Date'' (date_cell L) df0 = Inr df"
    and i: "i < length (body df)"
    and m: "mapE (make_point L (header df)) (take i (body df)) = Inr ps"
    and f: "make_point L (header df) (body df ! i) = Inl e"
    and ack: "\<forall>k c. respond D k c = None"
  shows "import_ionq L D df0 =
     (Some e,
      \<lparr>written = map write_point ps, attempts = i, queries = [],
       printed = [Msg_Loading (length (body df))] @
         map Msg_Imported (filter (\<lambda>c. c mod 100 = 0) [1..<Suc i])\<rparr>)"
proof -
  have r: "\<forall>j<i. \<forall>c. respond D (attempts w + j) c = None" for w :: "('a, 'b) world"
    using ack by simp
  show ?thesis
    unfolding ionq_loop_raises [OF cc ionq_loop_row_fails [OF m i f r]]
    by (simp add: print_msg_def fresh_def)
qed

text \<open>
  C10: when the dates convert, the rows before row \<open>i\<close> convert to the points \<open>ps\<close> and
  building the point of row \<open>i\<close> raises \<open>e\<close> (a column of the row missing, or \<^verbatim>\<open>float\<close> or
  \<^verbatim>\<open>int\<close> raising on a cell), each import script ends with \<open>e\<close>, sends no query, and leaves
  in the destination what it wrote before: \<^verbatim>\<open>import_ionq.py\<close> every point of the earlier
  rows, \<^verbatim>\<open>import_ionq_to_influx.py\<close> the full batches of 1000 flushed before row \<open>i\<close>.
\<close>

theorem parse_failure_leaves_partial_import:
  assumes "convert_column ''Date'' (date_cell L) df0 = Inr df"
    and "i < length (body df)"
    and "mapE (make_point L (header df)) (take i (body df)) = Inr ps"
    and "make_point L (header df) (body df ! i) = Inl e"
    and "\<forall>k c. respond D k c = None"
  shows "fst (import_csv_to_influxdb L D df0) = Some e
    \<and> written (snd (import_csv_to_influxdb L D df0)) =
        map (\<lambda>j. write_batch (take 1000 (drop (1000 * j) ps))) [0..<i div 1000]
    \<and> queries (snd (import_csv_to_influxdb L D df0)) = []
    \<and> fst (import_ionq L D df0) = Some e
    \<and> written (snd (import_ionq L D df0)) = map write_point ps
    \<and> queries (snd (import_ionq L D df0)) = []"
  unfolding influx_run_row_fails [OF assms] ionq_run_row_fails [OF assms]
  by simp

lemma unparsable_row_date:
  "bindE (getitem ohlcv_header unparsable_row ''Date'')
     (\<lambda>c. bindE (date_cell numeric_lib c) (\<lambda>v. Inr (setitem ohlcv_header unparsable_row ''Date'' v)))
   = Inr (CTime ''2021-01-06'' # tl unparsable_row)"
  by (simp add: getitem_def setitem_def ohlcv_header_def unparsable_row_def bindE_def date_cell_def
      numeric_lib_def)

lemma unparsable_row_raises:
  "make_point numeric_lib ohlcv_header (CTime ''2021-01-06'' # tl unparsable_row) = Inl ValueError"
  by (simp add: make_point_def getitem_def ohlcv_header_def unparsable_row_def bindE_def
      numeric_lib_def)

lemma partial_frame_dates:
  "convert_column ''Date'' (date_cell numeric_lib)
     \<lparr>header = ohlcv_header, body = replicate n sample_row @ [unparsable_row]\<rparr>
   = Inr \<lparr>header = ohlcv_header,
          body = replicate n (CTime ''2021-01-01'' # tl sample_row) @
                 [CTime ''2021-01-06'' # tl unparsable_row]\<rparr>"
proof -
  let ?g = "\<lambda>row. bindE (getitem ohlcv_header row ''Date'')
            (\<lambda>c. bindE (date_cell numeric_lib c) (\<lambda>v. Inr (setitem ohlcv_header row ''Date'' v)))"
  have "mapE ?g (replicate n sample_row) = Inr (replicate n (CTime ''2021-01-01'' # tl sample_row))"
    by (rule mapE_replicate) (rule sample_row_date)
  moreover have "mapE ?g [unparsable_row] = Inr [CTime ''2021-01-06'' # tl unparsable_row]"
    by (simp add: unparsable_row_date)
  ultimately have "mapE ?g (replicate n sample_row @ [unparsable_row])
      = Inr (replicate n (CTime ''2021-01-01'' # tl sample_row) @
             [CTime ''2021-01-06'' # tl unparsable_row])"
    by (simp only: mapE_append sum.case)
  then show ?thesis
    by (simp add: convert_column_def bindE_def) (simp add: ohlcv_header_def)
qed

theorem parse_failure_leaves_partial_import_witness:
  "convert_column ''Date'' (date_cell numeric_lib)
     \<lparr>header = ohlcv_header, body = replicate 1000 sample_row @ [unparsable_row]\<rparr>
   = Inr \<lparr>header = ohlcv_header,
          body = replicate 1000 (CTime ''2021-01-01'' # tl sample_row) @
                 [CTime ''2021-01-06'' # tl unparsable_row]\<rparr>
   \<and> make_point numeric_lib ohlcv_header (CTime ''2021-01-06'' # tl unparsable_row)
       = Inl ValueError
   \<and> fst (import_csv_to_influxdb numeric_lib acknowledging
        \<lparr>header = ohlcv_header, body = replicate 1000 sample_row @ [unparsable_row]\<rparr>)
       = Some ValueError
   \<and> written (snd (import_csv_to_influxdb numeric_lib acknowledging
        \<lparr>header = ohlcv_header, body = replicate 1000 sample_row @ [unparsable_row]\<rparr>))
       = [write_batch (replicate 1000 sample_point)]
   \<and> fst (import_ionq numeric_lib acknowledging
        \<lparr>header = ohlcv_header, body = replicate 1000 sample_row @ [unparsable_row]\<rparr>)
       = Some ValueError
   \<and> written (snd (import_ionq numeric_lib acknowledging
        \<lparr>header = ohlcv_header, body = replicate 1000 sample_row @ [unparsable_row]\<rparr>))
       = map write_point (replicate 1000 sample_point)"
proof -
  let ?df = "\<lparr>header = ohlcv_header,
          body = replicate 1000 (CTime ''2021-01-01'' # tl sample_row) @
                 [CTime ''2021-01-06'' # tl unparsable_row]\<rparr> :: (rat, string) frame"
  note cc = partial_frame_dates [of 1000]
  have i: "1000 < length (body ?df)" by simp
  have m: "mapE (make_point numeric_lib (header ?df)) (take 1000 (body ?df))
      = Inr (replicate 1000 sample_point)"
    using mapE_replicate [of "make_point numeric_lib ohlcv_header", OF sample_row_point, of 1000]
    by simp
  have f: "make_point numeric_lib (header ?df) (body ?df ! 1000) = Inl ValueError"
    by (simp add: nth_append unparsable_row_raises)
  have ack: "\<forall>k c. respond acknowledging k c = None" by (simp add: acknowledging_def)
  from parse_failure_leaves_partial_import [OF cc i m f ack] cc unparsable_row_raises
  show ?thesis by simp
qed

section \<open>A write call that fails\<close>

lemma spec_batches_nth:
  "k < length (spec_batches n xs) \<Longrightarrow> spec_batches n xs ! k = take n (drop (n * k) xs)"
  by (simp add: spec_batches_def)

lemma spec_batches_take:
  assumes "k \<le> length xs div 1000"
  shows "take k (spec_batches 1000 xs) = map (\<lambda>j. take 1000 (drop (1000 * j) xs)) [0..<k]"
proof -
  have "take k (map (\<lambda>j. take 1000 (drop (1000 * j) xs)) [0..<length xs div 1000]) =
      map (\<lambda>j. take 1000 (drop (1000 * j) xs)) [0..<k]"
    using assms by (simp add: take_map min_def)
  then show ?thesis
    using assms by (simp add: spec_batches_split)
qed

lemma spec_batches_length:
  "length (spec_batches 1000 xs) =
     length xs div 1000 + (if drop (1000 * (length xs div 1000)) xs = [] then 0 else 1)"
  by (simp add: spec_batches_split)

lemma influx_run_write_fails:
  assumes fp: "frame_points L df0 = Inr ps"
    and k: "k < length (spec_batches 1000 ps)"
    and ok: "\<forall>j<k. \<forall>c. respond D j c = None"
    and bad: "respond D k (write_batch (spec_batches 1000 ps ! k)) = Some e"
  shows "fst (import_csv_to_influxdb L D df0) = Some e"
    and "written (snd (import_csv_to_influxdb L D df0)) = map write_batch (take k (spec_batches 1000 ps))"
    and "attempts (snd (import_csv_to_influxdb L D df0)) = k + 1"
    and "queries (snd (import_csv_to_influxdb L D df0)) = []"
proof -
  from frame_points_Inr [OF fp] obtain df where
    cc: "convert_column ''Date'' (date_cell L) df0 = Inr df"
    and m: "mapE (make_point L (header df)) (body df) = Inr ps" by blast
  have n: "length (body df) = length ps" using mapE_length [OF m] by simp
  define q where "q = length ps div 1000"
  define w2 :: "('a, 'b) world" where
    "w2 = print_msg (Msg_Found (length (body df))) (print_msg (Msg_Reading CSV_FILE) fresh)"
  have w2f: "written w2 = []" "attempts w2 = 0" "queries w2 = []"
    by (simp_all add: w2_def print_msg_def fresh_def)
  have batch: "spec_batches 1000 ps ! k = take 1000 (drop (1000 * k) ps)"
    using k by (rule spec_batches_nth)
  have kq: "k \<le> q" using k by (simp add: spec_batches_length q_def split: if_splits)
  have tk: "take k (spec_batches 1000 ps) = map (\<lambda>j. take 1000 (drop (1000 * j) ps)) [0..<k]"
    using kq unfolding q_def by (rule spec_batches_take)
  have res: "fst (import_csv_to_influxdb L D df0) = Some e
      \<and> written (snd (import_csv_to_influxdb L D df0)) = map write_batch (take k (spec_batches 1000 ps))
      \<and> attempts (snd (import_csv_to_influxdb L D df0)) = k + 1
      \<and> queries (snd (import_csv_to_influxdb L D df0)) = []"
  proof (cases "k < q")
    case True
    let ?r1 = "take (1000 * k) (body df)" and ?r2 = "take 1000 (drop (1000 * k) (body df))"
      and ?r3 = "drop (1000 * k + 1000) (body df)"
    let ?p1 = "take (1000 * k) ps" and ?p2 = "take 1000 (drop (1000 * k) ps)"
    have big: "1000 * k + 1000 \<le> length ps"
    proof -
      have "1000 * (k + 1) \<le> 1000 * q" using True by simp
      also have "\<dots> \<le> length ps" by (simp add: q_def)
      finally show ?thesis by simp
    qed
    have split: "body df = ?r1 @ ?r2 @ ?r3"
      by (metis add.commute append_take_drop_id drop_drop)
    have m1: "mapE (make_point L (header df)) ?r1 = Inr ?p1" using m by (rule mapE_take)
    have m2: "mapE (make_point L (header df)) ?r2 = Inr ?p2"
      using m by (intro mapE_take mapE_drop)
    have l1: "length ?r1 = 1000 * k" using big n by simp
    have l2: "length [] + length ?r2 = 1000" using big n by simp
    have ne: "?r2 \<noteq> []" using l2 by auto
    have r1: "\<forall>j<k. \<forall>c. respond D (attempts w2 + j) c = None" using ok by (simp add: w2f)
    have same: "map (\<lambda>j. write_batch (take 1000 (drop (1000 * j) ?p1))) [0..<k]
              = map (\<lambda>j. write_batch (take 1000 (drop (1000 * j) ps))) [0..<k]"
      by (rule map_cong) (auto simp: take_drop_take)
    define w3 where "w3 = w2\<lparr>written := written w2 @
        map (\<lambda>j. write_batch (take 1000 (drop (1000 * j) ?p1))) [0..<k],
      attempts := attempts w2 + k,
      printed := printed w2 @ map (\<lambda>j. Msg_Imported (0 + 1000 * (j + 1))) [0..<k]\<rparr>"
    have s1: "import_loop L D (header df) ?r1 0 [] w2 = (Inr [], w3)"
      unfolding w3_def by (rule import_loop_chunks [OF m1 l1 r1])
    have w3f: "written w3 = map write_batch (take k (spec_batches 1000 ps))"
        "attempts w3 = k" "queries w3 = []"
      by (simp_all add: w3_def w2f same tk)
    have bad': "respond D (attempts w3) (write_batch ([] @ ?p2)) = Some e"
      using bad by (simp add: w3f batch)
    have s2: "import_loop L D (header df) ?r2 (0 + length ?r1) [] w3
        = (Inl e, w3\<lparr>attempts := attempts w3 + 1\<rparr>)"
      unfolding import_loop_flush [OF m2 l2 ne] write_api_write_def bad' by simp
    have "import_loop L D (header df) (body df) 0 [] w2
        = import_loop L D (header df) (?r1 @ ?r2 @ ?r3) 0 [] w2"
      using split by simp
    also have "\<dots> = (Inl e, w3\<lparr>attempts := attempts w3 + 1\<rparr>)"
      unfolding import_loop_append s1 prod.case sum.case s2 by simp
    finally have "import_csv_to_influxdb L D df0 = (Some e, w3\<lparr>attempts := attempts w3 + 1\<rparr>)"
      unfolding w2_def by (rule influx_loop_raises [OF cc])
    then show ?thesis by (simp add: w3f)
  next
    case False
    then have kq': "k = q" using kq by simp
    define rest where "rest = drop (1000 * q) ps"
    have ne: "rest \<noteq> []"
      using k by (simp add: spec_batches_length kq' q_def rest_def split: if_splits)
    have short: "length rest \<le> 1000"
    proof -
      have "length ps = 1000 * q + length ps mod 1000" by (simp add: q_def)
      moreover have "length ps mod 1000 < 1000" by simp
      ultimately show ?thesis by (simp add: rest_def)
    qed
    have "spec_batches 1000 ps ! q = take 1000 (drop (1000 * q) ps)"
      using batch by (simp only: kq')
    then have batch': "spec_batches 1000 ps ! k = rest"
      using short by (simp add: kq' rest_def)
    define w3 where "w3 = w2\<lparr>written := written w2 @
        map (\<lambda>j. write_batch (take 1000 (drop (1000 * j) ps))) [0..<q],
      attempts := attempts w2 + q,
      printed := printed w2 @ map (\<lambda>j. Msg_Imported (0 + 1000 * (j + 1))) [0..<q]\<rparr>"
    have r: "\<forall>j<length (body df) div 1000. \<forall>c. respond D (attempts w2 + j) c = None"
      using ok by (simp add: w2f n kq' q_def)
    have lp: "import_loop L D (header df) (body df) 0 [] w2 = (Inr rest, w3)"
      using import_loop_all [OF m r, of 0] by (simp only: q_def rest_def w3_def)
    have tq: "take q (spec_batches 1000 ps) = map (\<lambda>j. take 1000 (drop (1000 * j) ps)) [0..<q]"
      using tk by (simp only: kq')
    have w3f: "written w3 = map write_batch (take k (spec_batches 1000 ps))"
        "attempts w3 = k" "queries w3 = []"
      by (simp_all add: w3_def w2f tq kq')
    have bad': "respond D k (write_batch rest) = Some e"
      using bad by (simp add: batch')
    show ?thesis
      unfolding influx_after_loop [OF cc lp [unfolded w2_def]]
      by (simp add: ne write_api_write_def bad' w3f)
  qed
  from res show "fst (import_csv_to_influxdb L D df0) = Some e"
    and "written (snd (import_csv_to_influxdb L D df0)) = map write_batch (take k (spec_batches 1000 ps))"
    and "attempts (snd (import_csv_to_influxdb L D df0)) = k + 1"
    and "queries (snd (import_csv_to_influxdb L D df0)) = []"
    by simp_all
qed

lemma ionq_run_write_fails:
  assumes fp: "frame_points L df0 = Inr ps"
    and k: "k < length ps"
    and ok: "\<forall>j<k. \<forall>c. respond D j c = None"
    and bad: "respond D k (write_point (ps ! k)) = Some e"
  shows "fst (import_ionq L D df0) = Some e"
    and "written (snd (import_ionq L D df0)) = map write_point (take k ps)"
    and "attempts (snd (import_ionq L D df0)) = k + 1"
    and "queries (snd (import_ionq L D df0)) = []"
proof -
  from frame_points_Inr [OF fp] obtain df where
    cc: "convert_column ''Date'' (date_cell L) df0 = Inr df"
    and m: "mapE (make_point L (header df)) (body df) = Inr ps" by blast
  have n: "length (body df) = length ps" using mapE_length [OF m] by simp
  define w1 :: "('a, 'b) world" where "w1 = print_msg (Msg_Loading (length (body df))) fresh"
  have w1f: "written w1 = []" "attempts w1 = 0" "queries w1 = []"
    by (simp_all add: w1_def print_msg_def fresh_def)
  let ?r1 = "take k (body df)"
  have kb: "k < length (body df)" using k n by simp
  have l1: "length ?r1 = k" using kb by simp
  have m1: "mapE (make_point L (header df)) ?r1 = Inr (take k ps)" using m by (rule mapE_take)
  have mk: "make_point L (header df) (body df ! k) = Inr (ps ! k)" using m kb by (rule mapE_nth)
  have r1: "\<forall>j<length ?r1. \<forall>c. respond D (attempts w1 + j) c = None"
    using ok by (simp add: w1f l1)
  define w2 where "w2 = w1\<lparr>written := written w1 @ map write_point (take k ps),
      attempts := attempts w1 + length (take k ps),
      printed := printed w1 @
        map Msg_Imported (filter (\<lambda>c. c mod 100 = 0) [Suc 0..<Suc (0 + length ?r1)])\<rparr>"
  have s1: "ionq_loop L D (header df) ?r1 0 w1 = (Inr (0 + length ?r1), w2)"
    unfolding w2_def by (rule ionq_loop_exact [OF m1 r1])
  have w2f: "written w2 = map write_point (take k ps)" "attempts w2 = k" "queries w2 = []"
    using k by (simp_all add: w2_def w1f)
  have bad': "respond D (attempts w2) (write_point (ps ! k)) = Some e"
    using bad by (simp add: w2f)
  have s2: "ionq_loop L D (header df) (body df ! k # drop (Suc k) (body df)) (0 + length ?r1) w2
      = (Inl e, w2\<lparr>attempts := attempts w2 + 1\<rparr>)"
    by (simp add: mk write_api_write_def bad')
  have split: "body df = ?r1 @ (body df ! k # drop (Suc k) (body df))"
    using kb by (simp add: id_take_nth_drop [symmetric])
  have "ionq_loop L D (header df) (body df) 0 w1
      = ionq_loop L D (header df) (?r1 @ (body df ! k # drop (Suc k) (body df))) 0 w1"
    using split by simp
  also have "\<dots> = (Inl e, w2\<lparr>attempts := attempts w2 + 1\<rparr>)"
    unfolding ionq_loop_append s1 prod.case sum.case s2 by simp
  finally have run: "import_ionq L D df0 = (Some e, w2\<lparr>attempts := attempts w2 + 1\<rparr>)"
    unfolding w1_def by (rule ionq_loop_raises [OF cc])
  show "fst (import_ionq L D df0) = Some e"
    and "written (snd (import_ionq L D df0)) = map write_point (take k ps)"
    and "attempts (snd (import_ionq L D df0)) = k + 1"
    and "queries (snd (import_ionq L D df0)) = []"
    by (simp_all add: run w2f)
qed

lemma spec_batches_le: "length (spec_batches 1000 xs) \<le> length xs"
proof -
  define q where "q = length xs div 1000"
  have a: "1000 * q \<le> length xs" by (simp add: q_def)
  have b: "q \<le> 1000 * q" by simp
  show ?thesis
  proof (cases "drop (1000 * q) xs = []")
    case True
    then show ?thesis using a b by (simp add: spec_batches_length q_def [symmetric])
  next
    case False
    then have "1000 * q < length xs" by simp
    moreover have "0 < length xs \<Longrightarrow> q < length xs" by (simp add: q_def)
    ultimately show ?thesis using False by (simp add: spec_batches_length q_def [symmetric])
  qed
qed

text \<open>
  C4, as the code has it: a write call is made once. When a call fails, its exception ends
  the run at once: the call is not repeated, the calls acknowledged before it stay written,
  and no later call or query is made. This holds for the batches of
  \<^verbatim>\<open>import_ionq_to_influx.py\<close> and for the single points of \<^verbatim>\<open>import_ionq.py\<close>.
\<close>

theorem write_failure_ends_run:
  assumes "frame_points L df0 = Inr ps"
    and "k < length (spec_batches 1000 ps)"
    and "\<forall>j<k. \<forall>c. respond D j c = None"
    and "\<forall>c. respond D k c = Some e"
  shows "fst (import_csv_to_influxdb L D df0) = Some e
    \<and> written (snd (import_csv_to_influxdb L D df0)) = map write_batch (take k (spec_batches 1000 ps))
    \<and> attempts (snd (import_csv_to_influxdb L D df0)) = k + 1
    \<and> queries (snd (import_csv_to_influxdb L D df0)) = []
    \<and> fst (import_ionq L D df0) = Some e
    \<and> written (snd (import_ionq L D df0)) = map write_point (take k ps)
    \<and> attempts (snd (import_ionq L D df0)) = k + 1
    \<and> queries (snd (import_ionq L D df0)) = []"
proof -
  have k': "k < length ps" using assms(2) spec_batches_le [of ps] by simp
  have b1: "respond D k (write_batch (spec_batches 1000 ps ! k)) = Some e"
    and b2: "respond D k (write_point (ps ! k)) = Some e"
    using assms(4) by simp_all
  show ?thesis
    using influx_run_write_fails [OF assms(1,2,3) b1] ionq_run_write_fails [OF assms(1) k' assms(3) b2]
    by simp
qed

theorem write_failure_ends_run_witness:
  "frame_points numeric_lib \<lparr>header = ohlcv_header, body = [sample_row]\<rparr> = Inr [sample_point]
   \<and> (\<forall>c. respond failing_twice 0 c = Some ConnectionError)
   \<and> fst (import_csv_to_influxdb numeric_lib failing_twice
        \<lparr>header = ohlcv_header, body = [sample_row]\<rparr>) = Some ConnectionError
   \<and> written (snd (import_csv_to_influxdb numeric_lib failing_twice
        \<lparr>header = ohlcv_header, body = [sample_row]\<rparr>)) = []
   \<and> attempts (snd (import_csv_to_influxdb numeric_lib failing_twice
        \<lparr>header = ohlcv_header, body = [sample_row]\<rparr>)) = 1
   \<and> fst (import_ionq numeric_lib failing_twice
        \<lparr>header = ohlcv_header, body = [sample_row]\<rparr>) = Some ConnectionError"
proof -
  have fp: "frame_points numeric_lib \<lparr>header = ohlcv_header, body = [sample_row]\<rparr>
      = Inr [sample_point]"
    unfolding sample_row_def sample_point_def by (rule numeric_row_points)
  have k: "0 < length (spec_batches 1000 [sample_point])" by (simp add: spec_batches_one)
  have ok: "\<forall>j<0::nat. \<forall>c. respond failing_twice j c = None" by simp
  have bad: "\<forall>c. respond failing_twice 0 c = Some ConnectionError"
    by (simp add: failing_twice_def)
  from write_failure_ends_run [OF fp k ok bad] fp bad show ?thesis by simp
qed

text \<open>
  The claim as stated fails: the destination rejects the first two calls and would accept
  the third, yet the run makes one call, ends with its exception and has written nothing.
\<close>

theorem no_retry_counterexample:
  "respond failing_twice 2 (write_batch [sample_point]) = None
   \<and> import_csv_to_influxdb numeric_lib failing_twice
       \<lparr>header = ohlcv_header, body = [sample_row]\<rparr>
     = (Some ConnectionError,
        \<lparr>written = [], attempts = 1, queries = [],
         printed = [Msg_Reading CSV_FILE, Msg_Found 1]\<rparr>)"
  by (simp add: import_csv_to_influxdb_def convert_column_def bindE_def getitem_def setitem_def
      ohlcv_header_def date_cell_def numeric_lib_def make_point_def field_def time_of_def
      Point_def sample_row_def sample_point_def failing_twice_def write_api_write_def
      print_msg_def fresh_def Let_def)

section \<open>A column missing from the header\<close>








section \<open>The embedded store\<close>





lemma analyze_converted:
  assumes "fst (analyze_ionq_local L df0 db) = None"
  shows "\<exists>df1 df2 df3 df4 df5 df.
      convert_column ''Date'' (date_cell L) df0 = Inr df1
    \<and> convert_column ''Open'' (astype_float L) df1 = Inr df2
    \<and> convert_column ''High'' (astype_float L) df2 = Inr df3
    \<and> convert_column ''Low'' (astype_float L) df3 = Inr df4
    \<and> convert_column ''Close'' (astype_float L) df4 = Inr df5
    \<and> convert_column ''Volume'' (astype_int L) df5 = Inr df
    \<and> analyze_ionq_local L df0 db = (None, to_sql ''ionq_prices'' df db)"
  using assms
  by (auto simp: analyze_ionq_local_def bindE_def split: sum.splits)




section \<open>Running twice\<close>

lemma foldl_map_add:
  "foldl (\<lambda>s p. s ++ g p) (s ++ t) ps = s ++ foldl (\<lambda>s p. s ++ g p) t ps"
proof (induction ps arbitrary: t)
  case Nil
  then show ?case by simp
next
  case (Cons p ps)
  show ?case using Cons.IH [of "t ++ g p"] by simp
qed

lemma foldl_map_add_empty:
  "foldl (\<lambda>s p. s ++ g p) s ps = s ++ foldl (\<lambda>s p. s ++ g p) Map.empty ps"
  using foldl_map_add [of g s Map.empty ps] by simp

lemma map_add_twice: "(s ++ m) ++ m = s ++ m"
  by (rule ext) (simp add: map_add_def split: option.split)

lemma point_entries_timed:
  "point_time p \<noteq> None \<Longrightarrow> point_entries now og b p = point_entries now' og b p"
  by (auto simp: point_entries_def)

lemma foldl_entries_timed:
  "\<forall>p\<in>set ps. point_time p \<noteq> None \<Longrightarrow>
   foldl (\<lambda>s p. s ++ point_entries now og b p) s ps
   = foldl (\<lambda>s p. s ++ point_entries now' og b p) s ps"
proof (induction ps arbitrary: s)
  case Nil
  then show ?case by simp
next
  case (Cons p ps)
  then show ?case by (simp add: point_entries_timed [of p now og b now'])
qed

lemma store_after_batches:
  "store_after now s (map write_batch bs)
   = foldl (\<lambda>s p. s ++ point_entries now None INFLUX_BUCKET p) s (concat bs)"
  by (induction bs arbitrary: s) (simp_all add: store_after_def store_call_def write_batch_def)

lemma store_after_points:
  "store_after now s (map write_point ps)
   = foldl (\<lambda>s p. s ++ point_entries now (Some ''Pope Brothers LTD'') ''stocks'' p) s ps"
  by (induction ps arbitrary: s) (simp_all add: store_after_def store_call_def write_point_def)

lemma frame_points_timed:
  assumes "frame_points L df0 = Inr ps"
  shows "\<forall>p\<in>set ps. point_time p \<noteq> None"
proof
  fix p assume "p \<in> set ps"
  then obtain i where i: "i < length ps" and p: "ps ! i = p" by (auto simp: in_set_conv_nth)
  from frame_points_nth [OF assms i] p show "point_time p \<noteq> None" by auto
qed

lemma store_twice:
  assumes "\<forall>p\<in>set ps. point_time p \<noteq> None"
  shows "foldl (\<lambda>s p. s ++ point_entries now' og b p)
           (foldl (\<lambda>s p. s ++ point_entries now og b p) s ps) ps
         = foldl (\<lambda>s p. s ++ point_entries now og b p) s ps"
proof -
  let ?m = "foldl (\<lambda>s p. s ++ point_entries now og b p) Map.empty ps"
  have 1: "foldl (\<lambda>s p. s ++ point_entries now og b p) s ps = s ++ ?m"
    by (rule foldl_map_add_empty)
  have "foldl (\<lambda>s p. s ++ point_entries now' og b p) (s ++ ?m) ps
      = foldl (\<lambda>s p. s ++ point_entries now og b p) (s ++ ?m) ps"
    using assms by (rule foldl_entries_timed [symmetric])
  also have "\<dots> = (s ++ ?m) ++ ?m" by (rule foldl_map_add_empty)
  also have "\<dots> = s ++ ?m" by (rule map_add_twice)
  finally show ?thesis by (simp only: 1)
qed

text \<open>
  C6: a destination that stores each value under organisation, bucket, measurement, tag
  set, time and field key holds after two runs on the same file exactly what it holds after
  one, for both import scripts and whatever its clock and its content before. Every point
  carries the date of its row as its time, so the second run writes under the keys of the
  first. On the embedded path the second run replaces the table by an equal one.
\<close>

theorem rerun_changes_nothing:
  assumes "frame_points L df0 = Inr ps"
    and "\<forall>k c. respond D k c = None" and "\<forall>k c. respond D' k c = None"
    and "fst (analyze_ionq_local L df0 db) = None"
  shows "store_after now' (store_after now s (written (snd (import_csv_to_influxdb L D df0))))
           (written (snd (import_csv_to_influxdb L D' df0)))
         = store_after now s (written (snd (import_csv_to_influxdb L D df0)))
    \<and> store_after now' (store_after now s (written (snd (import_ionq L D df0))))
           (written (snd (import_ionq L D' df0)))
         = store_after now s (written (snd (import_ionq L D df0)))
    \<and> analyze_ionq_local L df0 (snd (analyze_ionq_local L df0 db))
         = analyze_ionq_local L df0 db"
proof -
  note t = frame_points_timed [OF assms(1)]
  have w: "written (snd (import_csv_to_influxdb L E df0)) = map write_batch (spec_batches 1000 ps)"
    if "\<forall>k c. respond E k c = None" for E
    using influx_run_acknowledged(1) [OF assms(1) that] .
  have v: "written (snd (import_ionq L E df0)) = map write_point ps"
    if "\<forall>k c. respond E k c = None" for E
    using ionq_run_world [OF assms(1) that] by (simp split: sum.splits)
  have 1: "store_after now' (store_after now s (written (snd (import_csv_to_influxdb L D df0))))
           (written (snd (import_csv_to_influxdb L D' df0)))
         = store_after now s (written (snd (import_csv_to_influxdb L D df0)))"
    unfolding w [OF assms(2)] w [OF assms(3)] store_after_batches concat_spec_batches [OF zero_less_numeral]
    using t by (rule store_twice)
  have 2: "store_after now' (store_after now s (written (snd (import_ionq L D df0))))
           (written (snd (import_ionq L D' df0)))
         = store_after now s (written (snd (import_ionq L D df0)))"
    unfolding v [OF assms(2)] v [OF assms(3)] store_after_points
    using t by (rule store_twice)
  from analyze_converted [OF assms(4)] obtain df1 df2 df3 df4 df5 df where
    c: "convert_column ''Date'' (date_cell L) df0 = Inr df1"
      "convert_column ''Open'' (astype_float L) df1 = Inr df2"
      "convert_column ''High'' (astype_float L) df2 = Inr df3"
      "convert_column ''Low'' (astype_float L) df3 = Inr df4"
      "convert_column ''Close'' (astype_float L) df4 = Inr df5"
      "convert_column ''Volume'' (astype_int L) df5 = Inr df"
    and run: "analyze_ionq_local L df0 db = (None, to_sql ''ionq_prices'' df db)"
    by blast
  have 3: "analyze_ionq_local L df0 (snd (analyze_ionq_local L df0 db))
         = analyze_ionq_local L df0 db"
    unfolding run by (simp add: analyze_ionq_local_def c bindE_def to_sql_def)
  from 1 2 3 show ?thesis by simp
qed

theorem rerun_changes_nothing_witness:
  "frame_points numeric_lib \<lparr>header = ohlcv_header, body = [sample_row]\<rparr> = Inr [sample_point]
   \<and> fst (analyze_ionq_local numeric_lib \<lparr>header = ohlcv_header, body = [sample_row]\<rparr> Map.empty)
       = None
   \<and> store_after (CStr ''later'')
       (store_after (CStr ''now'') Map.empty
          (written (snd (import_csv_to_influxdb numeric_lib acknowledging
             \<lparr>header = ohlcv_header, body = [sample_row]\<rparr>))))
       (written (snd (import_csv_to_influxdb numeric_lib acknowledging
          \<lparr>header = ohlcv_header, body = [sample_row]\<rparr>)))
     = store_after (CStr ''now'') Map.empty
         (written (snd (import_csv_to_influxdb numeric_lib acknowledging
            \<lparr>header = ohlcv_header, body = [sample_row]\<rparr>)))"
proof -
  have fp: "frame_points numeric_lib \<lparr>header = ohlcv_header, body = [sample_row]\<rparr>
      = Inr [sample_point]"
    unfolding sample_row_def sample_point_def by (rule numeric_row_points)
  have ack: "\<forall>k c. respond acknowledging k c = None" by (simp add: acknowledging_def)
  have c: "fst (analyze_ionq_local numeric_lib \<lparr>header = ohlcv_header, body = [sample_row]\<rparr>
      Map.empty) = None"
    by (simp add: analyze_ionq_local_def convert_column_def bindE_def getitem_def setitem_def
      ohlcv_header_def date_cell_def astype_float_def astype_int_def numeric_lib_def
      sample_row_def)
  from rerun_changes_nothing [OF fp ack ack c, of "CStr ''later''" "CStr ''now''" Map.empty]
    fp c show ?thesis by simp
qed

end
